theory Spec2Isabelle
  imports Main
begin

section \<open>Text and case folding\<close>

text \<open>
  The source is Python 2 (\<open>__unicode__\<close>, \<open>unicode(...)\<close>): the values of character fields
  and of the posted form are \<open>unicode\<close> texts, sequences of code points.  A literal of the
  source is the text of its characters.
\<close>

type_synonym unicode = "nat list"

definition lit :: "string \<Rightarrow> unicode" where
  "lit s = map of_char s"

text \<open>
  \<open>.lower()\<close> maps a text character by character.  It moves \<open>A\<close>..\<open>Z\<close> (65..90) up by 32
  and leaves every other ASCII character alone; beyond ASCII it follows the case table
  of the Unicode database, which is not part of the sources and is the argument \<open>ucd\<close>:
  the lower-case form of every code point from 128 on.
\<close>

definition to_lower :: "(nat \<Rightarrow> nat) \<Rightarrow> nat \<Rightarrow> nat" where
  "to_lower ucd c = (if 65 \<le> c \<and> c \<le> 90 then c + 32 else if c < 128 then c else ucd c)"

definition lower :: "(nat \<Rightarrow> nat) \<Rightarrow> unicode \<Rightarrow> unicode" where
  "lower ucd s = map (to_lower ucd) s"

text \<open>
  The specification's notion of comparing case-insensitively, stated on its own.  The
  lower-case form of an ASCII character is read off the two alphabets (a character that
  is not an upper-case letter is its own form), that of any other character is the case
  table's.  Two characters are the same letter when they have the same lower-case form;
  two texts are equal ignoring case when they have the same length and the same letter
  at every position.
\<close>

definition upper_case_letters :: unicode where
  "upper_case_letters = lit ''ABCDEFGHIJKLMNOPQRSTUVWXYZ''"

definition lower_case_letters :: unicode where
  "lower_case_letters = lit ''abcdefghijklmnopqrstuvwxyz''"

definition lower_case_form :: "(nat \<Rightarrow> nat) \<Rightarrow> nat \<Rightarrow> nat" where
  "lower_case_form ucd c =
     (if c < 128
      then (case map_of (zip upper_case_letters lower_case_letters) c of
              Some l \<Rightarrow> l
            | None \<Rightarrow> c)
      else ucd c)"

definition same_letter :: "(nat \<Rightarrow> nat) \<Rightarrow> nat \<Rightarrow> nat \<Rightarrow> bool" where
  "same_letter ucd a b = (lower_case_form ucd a = lower_case_form ucd b)"

definition equal_ignoring_case :: "(nat \<Rightarrow> nat) \<Rightarrow> unicode \<Rightarrow> unicode \<Rightarrow> bool" where
  "equal_ignoring_case ucd s t = list_all2 (same_letter ucd) s t"


section \<open>The storage layer\<close>

text \<open>
  Exceptions are values.  A validation error carries its error dictionary: field name and
  the messages (for the framework's own checks, the error codes) recorded for the field.
\<close>

datatype error =
    ValidationError "(string \<times> string list) list"
  | DoesNotExist
  | MultipleObjectsReturned
  | IntegrityError
  | DatabaseError
  | ValueError
  | AttributeError

type_synonym datetime = int

text \<open>
  Every model class extends \<open>models.Model\<close>.  An instance carries its primary key, \<open>None\<close>
  until it has been inserted, and the framework's \<open>_state.adding\<close>: true for an instance
  built in the program, false for one read from the table or saved to it.  A table is the
  list of its rows.
\<close>

record model =
  pk :: "nat option"
  adding :: bool

fun pks :: "'a model_scheme list \<Rightarrow> nat list" where
  "pks [] = []"
| "pks (r # rows) = (case pk r of None \<Rightarrow> pks rows | Some k \<Rightarrow> k # pks rows)"

definition next_pk :: "'a model_scheme list \<Rightarrow> nat" where
  "next_pk rows = Suc (fold max (pks rows) 0)"

definition well_formed :: "'a model_scheme list \<Rightarrow> bool" where
  "well_formed rows = (None \<notin> set (map pk rows) \<and> distinct (map pk rows))"

text \<open>\<open>objects.get\<close>: the one row that satisfies the condition, or an exception.\<close>

definition objects_get :: "('r \<Rightarrow> bool) \<Rightarrow> 'r list \<Rightarrow> error + 'r" where
  "objects_get p rows =
     (case filter p rows of
        [] \<Rightarrow> Inl DoesNotExist
      | [r] \<Rightarrow> Inr r
      | _ \<Rightarrow> Inl MultipleObjectsReturned)"

definition get_by_pk :: "nat option \<Rightarrow> 'a model_scheme list \<Rightarrow> error + 'a model_scheme" where
  "get_by_pk k rows =
     (case k of
        None \<Rightarrow> Inl DoesNotExist
      | Some i \<Rightarrow> objects_get (\<lambda>r. pk r = Some i) rows)"

text \<open>
  The keyword arguments of \<open>Model.save\<close> that the overriding \<open>save\<close> methods pass on
  through \<open>*args, **kwargs\<close>; \<open>plain\<close> is a call without arguments.
\<close>

record save_kwargs =
  force_insert :: bool
  force_update :: bool
  update_fields :: "string list option"

definition plain :: save_kwargs where
  "plain = \<lparr>force_insert = False, force_update = False, update_fields = None\<rparr>"

text \<open>
  \<open>Model.save\<close> of the base class, for a table with the column names \<open>cols\<close>, where
  \<open>assign fs obj row\<close> is \<open>row\<close> with the columns named in \<open>fs\<close> taken from \<open>obj\<close>.

  \<^item> Forcing an insert together with an update is a \<open>ValueError\<close>; an empty \<open>update_fields\<close>
    returns at once; a name in \<open>update_fields\<close> that is no column is a \<open>ValueError\<close>.
  \<^item> An instance without a key cannot be updated (\<open>ValueError\<close>); otherwise it is inserted
    under the next free key.
  \<^item> An instance with a key is written by an update of the row under that key, of all
    columns or of those in \<open>update_fields\<close>.  When there is no such row, a forced or
    partial update fails (\<open>DatabaseError\<close>) and a plain save inserts the instance.
  \<^item> With \<open>force_insert\<close> the instance is inserted, which the database refuses when the
    key is taken (\<open>IntegrityError\<close>).
  \<^item> \<open>fault\<close> is an error of the database itself at the write (a lost connection, a value
    the column cannot hold), \<open>None\<close> when there is none: the write raises it and writes
    nothing.

  The instance is returned with its key set and \<open>_state.adding\<close> false.
\<close>

definition Model_save ::
  "string list \<Rightarrow> (string list \<Rightarrow> 'a model_scheme \<Rightarrow> 'a model_scheme \<Rightarrow> 'a model_scheme) \<Rightarrow>
   save_kwargs \<Rightarrow> error option \<Rightarrow> 'a model_scheme list \<Rightarrow> 'a model_scheme \<Rightarrow>
   'a model_scheme list \<times> (error + 'a model_scheme)" where
  "Model_save cols assign kw fault rows obj =
     (if force_insert kw \<and>
         (force_update kw \<or> (update_fields kw \<noteq> None \<and> update_fields kw \<noteq> Some []))
      then (rows, Inl ValueError)
      else if update_fields kw = Some [] then (rows, Inr obj)
      else if (case update_fields kw of None \<Rightarrow> False | Some fs \<Rightarrow> \<not> set fs \<subseteq> set cols)
      then (rows, Inl ValueError)
      else
        (case pk obj of
           None \<Rightarrow>
             if force_update kw \<or> update_fields kw \<noteq> None then (rows, Inl ValueError)
             else (case fault of
                     Some e \<Rightarrow> (rows, Inl e)
                   | None \<Rightarrow>
                       (let obj' = obj\<lparr>pk := Some (next_pk rows), adding := False\<rparr>
                        in (rows @ [obj'], Inr obj')))
         | Some k \<Rightarrow>
             (case fault of
                Some e \<Rightarrow> (rows, Inl e)
              | None \<Rightarrow>
                  (let obj' = obj\<lparr>adding := False\<rparr>
                   in if force_insert kw
                      then (if k \<in> set (pks rows) then (rows, Inl IntegrityError)
                            else (rows @ [obj'], Inr obj'))
                      else if k \<in> set (pks rows)
                      then (map (\<lambda>r. if pk r = Some k
                                      then (case update_fields kw of
                                              None \<Rightarrow> obj'
                                            | Some fs \<Rightarrow> assign fs obj r)
                                      else r) rows,
                            Inr obj')
                      else if force_update kw \<or> update_fields kw \<noteq> None
                      then (rows, Inl DatabaseError)
                      else (rows @ [obj'], Inr obj')))))"

text \<open>\<open>objects.create\<close> builds the instance and saves it with \<open>force_insert=True\<close>.\<close>

definition objects_create ::
  "'a model_scheme list \<Rightarrow> 'a model_scheme \<Rightarrow> 'a model_scheme list \<times> (error + 'a model_scheme)" where
  "objects_create rows obj =
     (case pk obj of
        None \<Rightarrow>
          (let obj' = obj\<lparr>pk := Some (next_pk rows), adding := False\<rparr>
           in (rows @ [obj'], Inr obj'))
      | Some k \<Rightarrow>
          if k \<in> set (pks rows) then (rows, Inl IntegrityError)
          else (rows @ [obj\<lparr>adding := False\<rparr>], Inr (obj\<lparr>adding := False\<rparr>)))"

text \<open>
  \<open>transaction.atomic\<close>: when the body raises, the writes it made are rolled back and the
  exception goes on to the caller.
\<close>

definition atomic :: "('s \<Rightarrow> 's \<times> (error + 'a)) \<Rightarrow> 's \<Rightarrow> 's \<times> (error + 'a)" where
  "atomic body s =
     (case body s of
        (s', Inl e) \<Rightarrow> (s, Inl e)
      | (s', Inr v) \<Rightarrow> (s', Inr v))"

text \<open>
  The field checks the framework runs for a \<open>CharField\<close> that is not declared
  \<open>blank=True\<close>: an empty value is refused, a value longer than \<open>max_length\<close> is refused.
\<close>

definition CharField_errors :: "nat \<Rightarrow> bool \<Rightarrow> unicode \<Rightarrow> string list" where
  "CharField_errors max_length blank v =
     (if v = [] then (if blank then [] else [''blank''])
      else if max_length < length v then [''max_length'']
      else [])"

definition field_errors :: "string \<Rightarrow> string list \<Rightarrow> (string \<times> string list) list" where
  "field_errors name errs = (if errs = [] then [] else [(name, errs)])"


section \<open>Hunt\<close>

record hunt = model +
  hunt_name :: unicode
  hunt_number :: int
  team_size :: int
  start_date :: datetime
  end_date :: datetime
  location :: unicode
  is_current_hunt :: bool

definition Hunt_columns :: "string list" where
  "Hunt_columns =
     [''hunt_name'', ''hunt_number'', ''team_size'', ''start_date'', ''end_date'', ''location'',
      ''is_current_hunt'']"

definition Hunt_assign :: "string list \<Rightarrow> hunt \<Rightarrow> hunt \<Rightarrow> hunt" where
  "Hunt_assign fs obj row =
     row\<lparr>hunt_name := (if ''hunt_name'' \<in> set fs then hunt_name obj else hunt_name row),
         hunt_number := (if ''hunt_number'' \<in> set fs then hunt_number obj else hunt_number row),
         team_size := (if ''team_size'' \<in> set fs then team_size obj else team_size row),
         start_date := (if ''start_date'' \<in> set fs then start_date obj else start_date row),
         end_date := (if ''end_date'' \<in> set fs then end_date obj else end_date row),
         hunt.location := (if ''location'' \<in> set fs then hunt.location obj else hunt.location row),
         is_current_hunt :=
           (if ''is_current_hunt'' \<in> set fs then is_current_hunt obj else is_current_hunt row)\<rparr>"

text \<open>
  \<open>Hunt.clean\<close>.  The lookup of the stored instance raises \<open>DoesNotExist\<close> for an
  instance that is not in the table, which the method swallows; any other exception of
  the lookup is not caught.
\<close>

definition Hunt_clean :: "hunt list \<Rightarrow> hunt \<Rightarrow> error + unit" where
  "Hunt_clean hunts self =
     (if \<not> is_current_hunt self then
        (case get_by_pk (pk self) hunts of
           Inr old_instance \<Rightarrow>
             if is_current_hunt old_instance
             then Inl (ValidationError
                        [(''is_current_hunt'', [''There must always be one current hunt''])])
             else Inr ()
         | Inl DoesNotExist \<Rightarrow> Inr ()
         | Inl e \<Rightarrow> Inl e)
      else Inr ())"

text \<open>
  \<open>full_clean\<close> runs the field checks, then \<open>clean\<close>, then the uniqueness checks, collects
  the validation errors of all three and raises them together.  The fields declared on
  \<open>Hunt\<close> give two length-limited, non-blank character fields and two unique columns, the
  key and \<open>hunt_number\<close>.  The uniqueness checks leave the instance's own row out only for
  an instance that is not being added; for one that is being added, a key that is taken
  is an error too.
\<close>

definition Hunt_clean_fields :: "hunt \<Rightarrow> (string \<times> string list) list" where
  "Hunt_clean_fields self =
     field_errors ''hunt_name'' (CharField_errors 200 False (hunt_name self)) @
     field_errors ''location'' (CharField_errors 100 False (hunt.location self))"

definition Hunt_validate_unique :: "hunt list \<Rightarrow> hunt \<Rightarrow> (string \<times> string list) list" where
  "Hunt_validate_unique hunts self =
     (if adding self \<and> pk self \<noteq> None \<and> (\<exists>r \<in> set hunts. pk r = pk self)
      then [(''id'', [''unique''])]
      else []) @
     (if \<exists>r \<in> set hunts. hunt_number r = hunt_number self \<and>
                          (adding self \<or> pk self = None \<or> pk r \<noteq> pk self)
      then [(''hunt_number'', [''unique''])]
      else [])"

definition Hunt_full_clean :: "hunt list \<Rightarrow> hunt \<Rightarrow> error + unit" where
  "Hunt_full_clean hunts self =
     (case Hunt_clean hunts self of
        Inl (ValidationError errs) \<Rightarrow>
          Inl (ValidationError (Hunt_clean_fields self @ errs @ Hunt_validate_unique hunts self))
      | Inl e \<Rightarrow> Inl e
      | Inr _ \<Rightarrow>
          (let errors = Hunt_clean_fields self @ Hunt_validate_unique hunts self
           in if errors = [] then Inr () else Inl (ValidationError errors)))"

text \<open>
  \<open>Hunt.save\<close>: validate, clear the flag on every stored hunt that has it when the
  instance claims it, then hand the instance and the arguments of the call to
  \<open>Model.save\<close>; all under \<open>transaction.atomic\<close>.  \<open>Hunt_save_body\<close> is the method without
  the decorator: what it returns when it raises is the table as the statements before
  the exception left it.
\<close>

definition clear_current :: "hunt list \<Rightarrow> hunt list" where
  "clear_current hunts =
     map (\<lambda>r. if is_current_hunt r then r\<lparr>is_current_hunt := False\<rparr> else r) hunts"

definition Hunt_save_body ::
  "save_kwargs \<Rightarrow> error option \<Rightarrow> hunt \<Rightarrow> hunt list \<Rightarrow> hunt list \<times> (error + hunt)" where
  "Hunt_save_body kw fault self hunts =
     (case Hunt_full_clean hunts self of
        Inl e \<Rightarrow> (hunts, Inl e)
      | Inr _ \<Rightarrow>
          (let hunts1 = (if is_current_hunt self then clear_current hunts else hunts)
           in Model_save Hunt_columns Hunt_assign kw fault hunts1 self))"

definition Hunt_save ::
  "save_kwargs \<Rightarrow> error option \<Rightarrow> hunt list \<Rightarrow> hunt \<Rightarrow> hunt list \<times> (error + hunt)" where
  "Hunt_save kw fault hunts self = atomic (Hunt_save_body kw fault self) hunts"

text \<open>
  A sequence of calls \<open>save()\<close> without arguments and without database faults, one after
  the other; a refused save changes nothing.
\<close>

fun save_all :: "hunt list \<Rightarrow> hunt list \<Rightarrow> hunt list" where
  "save_all hunts [] = hunts"
| "save_all hunts (h # hs) = save_all (fst (Hunt_save plain None hunts h)) hs"

definition number_current :: "hunt list \<Rightarrow> nat" where
  "number_current hunts = length (filter is_current_hunt hunts)"

text \<open>
  The derived states.  \<open>timezone.now()\<close> is an argument; \<open>is_open\<close> reads the clock twice,
  \<open>is_open_at\<close> keeps the two readings apart and \<open>is_open\<close> is the case of one instant.
\<close>

definition is_locked :: "datetime \<Rightarrow> hunt \<Rightarrow> bool" where
  "is_locked now self = (now < start_date self)"

definition is_open_at :: "datetime \<Rightarrow> datetime \<Rightarrow> hunt \<Rightarrow> bool" where
  "is_open_at now1 now2 self = (now1 > start_date self \<and> now2 < end_date self)"

definition is_open :: "datetime \<Rightarrow> hunt \<Rightarrow> bool" where
  "is_open now self = is_open_at now now self"

definition is_public :: "datetime \<Rightarrow> hunt \<Rightarrow> bool" where
  "is_public now self = (now > end_date self)"


section \<open>Puzzle, Team, Submission, Solve\<close>

text \<open>A foreign key is the key of the row it points to, under the column name \<open>_id\<close>.\<close>

record puzzle = model +
  puzzle_number :: int
  puzzle_name :: unicode
  puzzle_id :: unicode
  answer :: unicode
  link :: unicode
  num_required_to_unlock :: int
  hunt_id :: nat
  num_pages :: int

record team = model +
  team_name :: unicode
  hunt_id :: nat
  location :: unicode
  join_code :: unicode
  playtester :: bool

record submission = model +
  team_id :: nat
  submission_time :: datetime
  submission_text :: unicode
  response_text :: unicode
  puzzle_id :: nat
  modified_date :: datetime

record solve = model +
  puzzle_id :: nat
  team_id :: nat
  submission_id :: nat

text \<open>
  \<open>Submission.is_correct\<close> follows the foreign key to the puzzle and compares the two
  lowered texts.
\<close>

definition is_correct :: "(nat \<Rightarrow> nat) \<Rightarrow> puzzle list \<Rightarrow> submission \<Rightarrow> error + bool" where
  "is_correct ucd puzzles self =
     (case get_by_pk (Some (submission.puzzle_id self)) puzzles of
        Inl e \<Rightarrow> Inl e
      | Inr p \<Rightarrow> Inr (lower ucd (submission_text self) = lower ucd (answer p)))"

text \<open>
  \<open>Submission.save\<close>: stamp the instance with the current time, then hand it and the
  arguments of the call to \<open>Model.save\<close>.  A foreign key column can be named by the field
  (\<open>team\<close>) or by the column (\<open>team_id\<close>).
\<close>

definition Submission_columns :: "string list" where
  "Submission_columns =
     [''team'', ''team_id'', ''submission_time'', ''submission_text'', ''response_text'',
      ''puzzle'', ''puzzle_id'', ''modified_date'']"

definition Submission_assign :: "string list \<Rightarrow> submission \<Rightarrow> submission \<Rightarrow> submission" where
  "Submission_assign fs obj row =
     row\<lparr>submission.team_id :=
           (if ''team'' \<in> set fs \<or> ''team_id'' \<in> set fs
            then submission.team_id obj else submission.team_id row),
         submission_time :=
           (if ''submission_time'' \<in> set fs then submission_time obj else submission_time row),
         submission_text :=
           (if ''submission_text'' \<in> set fs then submission_text obj else submission_text row),
         response_text :=
           (if ''response_text'' \<in> set fs then response_text obj else response_text row),
         submission.puzzle_id :=
           (if ''puzzle'' \<in> set fs \<or> ''puzzle_id'' \<in> set fs
            then submission.puzzle_id obj else submission.puzzle_id row),
         modified_date :=
           (if ''modified_date'' \<in> set fs then modified_date obj else modified_date row)\<rparr>"

definition Submission_save ::
  "datetime \<Rightarrow> save_kwargs \<Rightarrow> error option \<Rightarrow> submission list \<Rightarrow> submission \<Rightarrow>
   submission list \<times> (error + submission)" where
  "Submission_save now kw fault submissions self =
     Model_save Submission_columns Submission_assign kw fault submissions
       (self\<lparr>modified_date := now\<rparr>)"

text \<open>
  \<open>Solve.objects.create\<close> under \<open>unique_together = ('puzzle', 'team')\<close>: the insert is
  refused with an integrity error when a row for the pair is already stored.
\<close>

definition has_solve :: "solve list \<Rightarrow> nat \<Rightarrow> nat \<Rightarrow> bool" where
  "has_solve solves p t = (\<exists>r \<in> set solves. solve.puzzle_id r = p \<and> solve.team_id r = t)"

definition Solve_create ::
  "solve list \<Rightarrow> nat \<Rightarrow> nat \<Rightarrow> nat \<Rightarrow> solve list \<times> (error + solve)" where
  "Solve_create solves p t s =
     (if has_solve solves p t then (solves, Inl IntegrityError)
      else objects_create solves
             \<lparr>pk = None, adding = True, solve.puzzle_id = p, solve.team_id = t,
              submission_id = s\<rparr>)"

definition number_solves :: "solve list \<Rightarrow> nat \<Rightarrow> nat \<Rightarrow> nat" where
  "number_solves solves p t =
     length (filter (\<lambda>r. solve.puzzle_id r = p \<and> solve.team_id r = t) solves)"

text \<open>
  Modelled from the spec: the grading pipeline's step that records a solve is not among
  the sources.  The specification has it catch the failure of the uniqueness constraint
  and treat it as "already solved", an idempotent success, instead of passing the error
  on.
\<close>

datatype solve_outcome = Solved solve | AlreadySolved

definition record_solve ::
  "solve list \<Rightarrow> nat \<Rightarrow> nat \<Rightarrow> nat \<Rightarrow> solve list \<times> (error + solve_outcome)" where
  "record_solve solves p t s =
     (case Solve_create solves p t s of
        (solves', Inr r) \<Rightarrow> (solves', Inr (Solved r))
      | (solves', Inl IntegrityError) \<Rightarrow> (solves', Inr AlreadySolved)
      | (solves', Inl e) \<Rightarrow> (solves', Inl e))"

fun record_solves :: "solve list \<Rightarrow> (nat \<times> nat \<times> nat) list \<Rightarrow> solve list" where
  "record_solves solves [] = solves"
| "record_solves solves ((p, t, s) # rest) = record_solves (fst (record_solve solves p t s)) rest"


section \<open>The registration view\<close>

text \<open>
  The database the view works on: the hunts, the teams, and the rows of the many-to-many
  table behind \<open>Person.teams\<close>, each a pair of a person's key and a team's key.
\<close>

record db =
  Hunt_objects :: "hunt list"
  Team_objects :: "team list"
  Person_teams :: "(nat \<times> nat) list"

text \<open>
  \<open>request.user.person\<close>: an anonymous user has no such attribute, a user without a
  \<open>Person\<close> row makes the access raise, otherwise it is the person (here, its key).
\<close>

datatype user = AnonymousUser | User "nat option"

definition user_person :: "user \<Rightarrow> error + nat" where
  "user_person u =
     (case u of
        AnonymousUser \<Rightarrow> Inl AttributeError
      | User None \<Rightarrow> Inl DoesNotExist
      | User (Some p) \<Rightarrow> Inr p)"

record request =
  "method" :: string
  POST :: "string \<rightharpoonup> unicode"
  user :: user

datatype context_value = TeamValue team | TeamsValue "team list"

datatype response =
    HttpResponse string
  | Render string "(string \<times> context_value) list"

definition Hunt_get_current :: "hunt list \<Rightarrow> error + hunt" where
  "Hunt_get_current hunts = objects_get is_current_hunt hunts"

definition team_set :: "db \<Rightarrow> hunt \<Rightarrow> team list" where
  "team_set d h = filter (\<lambda>t. Some (team.hunt_id t) = pk h) (Team_objects d)"

definition person_set :: "db \<Rightarrow> team \<Rightarrow> nat list" where
  "person_set d t = map fst (filter (\<lambda>m. Some (snd m) = pk t) (Person_teams d))"

text \<open>
  \<open>teams.add\<close> inserts the pair unless it is there; \<open>teams.remove\<close> deletes it.  The
  teams the view hands to them are stored rows, which have a key; for an instance
  without one there is no pair to insert or delete.
\<close>

definition teams_add :: "db \<Rightarrow> nat \<Rightarrow> team \<Rightarrow> db" where
  "teams_add d p t =
     (case pk t of
        None \<Rightarrow> d
      | Some k \<Rightarrow>
          if (p, k) \<in> set (Person_teams d) then d
          else d\<lparr>Person_teams := Person_teams d @ [(p, k)]\<rparr>)"

definition teams_remove :: "db \<Rightarrow> nat \<Rightarrow> team option \<Rightarrow> db" where
  "teams_remove d p t =
     (case t of
        None \<Rightarrow> d
      | Some t' \<Rightarrow> d\<lparr>Person_teams := filter (\<lambda>m. \<not> (fst m = p \<and> Some (snd m) = pk t')) (Person_teams d)\<rparr>)"

text \<open>
  The many-to-many table has foreign keys: every row points to a stored team.
\<close>

definition memberships_valid :: "db \<Rightarrow> bool" where
  "memberships_valid d = (\<forall>m \<in> set (Person_teams d). snd m \<in> set (pks (Team_objects d)))"

text \<open>
  \<open>team_name__iexact\<close> is a comparison made by the database, under its own case folding:
  it folds the ASCII letters, and beyond ASCII it follows its collation, the argument
  \<open>coll\<close> (the folded form of every code point from 128 on).  No row matches a missing
  value.
\<close>

definition iexact :: "(nat \<Rightarrow> nat) \<Rightarrow> unicode \<Rightarrow> unicode option \<Rightarrow> bool" where
  "iexact coll stored v = (case v of None \<Rightarrow> False | Some s \<Rightarrow> lower coll stored = lower coll s)"

text \<open>
  No two teams of one hunt have names that are equal under the database's folding.
\<close>

definition names_distinct :: "(nat \<Rightarrow> nat) \<Rightarrow> db \<Rightarrow> bool" where
  "names_distinct coll d =
     distinct (map (\<lambda>t. (team.hunt_id t, lower coll (team_name t))) (Team_objects d))"

text \<open>
  \<open>random.choice\<close> picks one position of the sequence; the random source is an argument,
  the draw number \<open>i\<close> giving the position \<open>rnd i mod length seq\<close>.
\<close>

definition join_code_alphabet :: unicode where
  "join_code_alphabet = lit ''ABCDEFGHJKLMNPQRSTUVWXYZ23456789''"

definition choice :: "'a list \<Rightarrow> nat \<Rightarrow> 'a" where
  "choice seq r = seq ! (r mod length seq)"

definition make_join_code :: "(nat \<Rightarrow> nat) \<Rightarrow> unicode" where
  "make_join_code rnd = map (\<lambda>i. choice join_code_alphabet (rnd i)) [0..<5]"

text \<open>
  \<open>Team.objects.create\<close>: the columns are not nullable, so a missing name or location
  makes the insert fail; \<open>playtester\<close> takes its default.  \<open>create\<close> does not validate,
  and the table is taken not to enforce the declared lengths of the text columns.
\<close>

definition Team_create ::
  "team list \<Rightarrow> unicode option \<Rightarrow> hunt \<Rightarrow> unicode option \<Rightarrow> unicode \<Rightarrow> team list \<times> (error + team)" where
  "Team_create teams name h loc code =
     (case (name, loc, pk h) of
        (Some n, Some l, Some hid) \<Rightarrow>
          objects_create teams
            \<lparr>pk = None, adding = True, team_name = n, team.hunt_id = hid, team.location = l,
             join_code = code, playtester = False\<rparr>
      | _ \<Rightarrow> (teams, Inl IntegrityError))"

text \<open>The page rendered at the end of the view.\<close>

definition registration_render :: "db \<Rightarrow> hunt \<Rightarrow> team option \<Rightarrow> response" where
  "registration_render d curr_hunt t =
     (case t of
        Some t' \<Rightarrow> Render ''registration.html'' [(''registered_team'', TeamValue t')]
      | None \<Rightarrow>
          Render ''registration.html''
            [(''teams'', TeamsValue (filter (\<lambda>t. Some (team.hunt_id t) = pk curr_hunt) (Team_objects d)))])"

text \<open>
  The three branches of the form.  The view is not wrapped in a transaction: an exception
  leaves the database as it is at that point.  The value of \<open>redirect\<close> is dropped by the
  source, so each branch that does not return goes on to render the page.  In the join
  branch the team comes from \<open>curr_hunt.team_set\<close>, so its \<open>team.hunt\<close> is \<open>curr_hunt\<close>.
\<close>

definition registration_new_team ::
  "(nat \<Rightarrow> nat) \<Rightarrow> (nat \<Rightarrow> nat) \<Rightarrow> team option \<Rightarrow> db \<Rightarrow> request \<Rightarrow> hunt \<Rightarrow>
   db \<times> (error + response)" where
  "registration_new_team coll rnd t0 d req curr_hunt =
     (if \<exists>t \<in> set (team_set d curr_hunt). iexact coll (team_name t) (POST req ''team_name'')
      then (d, Inr (HttpResponse ''fail-exists''))
      else if POST req ''team_name'' \<noteq> Some []
      then (let join_code = make_join_code rnd
            in case Team_create (Team_objects d) (POST req ''team_name'') curr_hunt
                      (POST req ''need_room'') join_code of
                 (teams', Inl e) \<Rightarrow> (d\<lparr>Team_objects := teams'\<rparr>, Inl e)
               | (teams', Inr t) \<Rightarrow>
                   (let d1 = d\<lparr>Team_objects := teams'\<rparr>
                    in case user_person (user req) of
                         Inl e \<Rightarrow> (d1, Inl e)
                       | Inr p \<Rightarrow>
                           (let d2 = teams_add d1 p t
                            in (d2, Inr (registration_render d2 curr_hunt (Some t))))))
      else (d, Inr (registration_render d curr_hunt t0)))"

definition registration_join_team ::
  "(nat \<Rightarrow> nat) \<Rightarrow> db \<Rightarrow> request \<Rightarrow> hunt \<Rightarrow> db \<times> (error + response)" where
  "registration_join_team ucd d req curr_hunt =
     (case objects_get (\<lambda>t. Some (team_name t) = POST req ''team_name'') (team_set d curr_hunt) of
        Inl e \<Rightarrow> (d, Inl e)
      | Inr t \<Rightarrow>
          if int (length (person_set d t)) \<ge> team_size curr_hunt
          then (d, Inr (HttpResponse ''fail-full''))
          else (case POST req ''join_code'' of
                  None \<Rightarrow> (d, Inl AttributeError)
                | Some code \<Rightarrow>
                    if lower ucd (join_code t) \<noteq> lower ucd code
                    then (d, Inr (HttpResponse ''fail-password''))
                    else (case user_person (user req) of
                            Inl e \<Rightarrow> (d, Inl e)
                          | Inr p \<Rightarrow>
                              (let d1 = teams_add d p t
                               in (d1, Inr (registration_render d1 curr_hunt (Some t)))))))"

definition registration_leave_team ::
  "team option \<Rightarrow> db \<Rightarrow> request \<Rightarrow> hunt \<Rightarrow> db \<times> (error + response)" where
  "registration_leave_team t0 d req curr_hunt =
     (case user_person (user req) of
        Inl e \<Rightarrow> (d, Inl e)
      | Inr p \<Rightarrow>
          (let d1 = teams_remove d p t0
           in (d1, Inr (registration_render d1 curr_hunt t0))))"

text \<open>
  The view.  \<open>coll\<close> is the database's folding, \<open>ucd\<close> the case table of \<open>.lower()\<close>, \<open>rnd\<close>
  the random source, and \<open>t0\<close> the value of
  \<open>team_from_user_hunt(request.user, curr_hunt)\<close>, a helper of another module: a team or
  \<open>None\<close>, taken as an argument.
\<close>

definition registration ::
  "(nat \<Rightarrow> nat) \<Rightarrow> (nat \<Rightarrow> nat) \<Rightarrow> (nat \<Rightarrow> nat) \<Rightarrow> team option \<Rightarrow> db \<Rightarrow> request \<Rightarrow>
   db \<times> (error + response)" where
  "registration coll ucd rnd t0 d req =
     (case Hunt_get_current (Hunt_objects d) of
        Inl e \<Rightarrow> (d, Inl e)
      | Inr curr_hunt \<Rightarrow>
          if method req = ''POST'' \<and> POST req ''form_type'' \<noteq> None then
            if POST req ''form_type'' = Some (lit ''new_team'')
            then registration_new_team coll rnd t0 d req curr_hunt
            else if POST req ''form_type'' = Some (lit ''join_team'')
            then registration_join_team ucd d req curr_hunt
            else if POST req ''form_type'' = Some (lit ''leave_team'')
            then registration_leave_team t0 d req curr_hunt
            else (d, Inr (registration_render d curr_hunt t0))
          else (d, Inr (registration_render d curr_hunt t0)))"

text \<open>A sequence of requests to the view, each with its random source and its \<open>t0\<close>.\<close>

fun registrations ::
  "(nat \<Rightarrow> nat) \<Rightarrow> (nat \<Rightarrow> nat) \<Rightarrow> db \<Rightarrow> ((nat \<Rightarrow> nat) \<times> team option \<times> request) list \<Rightarrow> db" where
  "registrations coll ucd d [] = d"
| "registrations coll ucd d ((rnd, t0, req) # rest) =
     registrations coll ucd (fst (registration coll ucd rnd t0 d req)) rest"


section \<open>Sample data\<close>

text \<open>
  Concrete rows and requests for the instances further down: two stored hunts, a puzzle
  with the answer "BANANA" and a stored submission for it, three teams, the forms of the
  registration page sent by the user whose person has key 9, and an excerpt of the case
  table (the accented capitals of Latin-1 and the Kelvin sign, which lowers to \<open>k\<close>).
\<close>

definition first_hunt :: hunt where
  "first_hunt =
     \<lparr>pk = Some 1, adding = False, hunt_name = lit ''First'', hunt_number = 1, team_size = 2,
      start_date = 10, end_date = 20, hunt.location = lit ''Hall'', is_current_hunt = True\<rparr>"

definition second_hunt :: hunt where
  "second_hunt =
     \<lparr>pk = Some 2, adding = False, hunt_name = lit ''Second'', hunt_number = 2, team_size = 4,
      start_date = 30, end_date = 40, hunt.location = lit ''Hall'', is_current_hunt = True\<rparr>"

definition banana_puzzle :: puzzle where
  "banana_puzzle =
     \<lparr>pk = Some 7, adding = False, puzzle_number = 1, puzzle_name = lit ''Fruit'',
      puzzle.puzzle_id = lit ''0a'', answer = lit ''BANANA'', link = lit ''http://x'',
      num_required_to_unlock = 1, puzzle.hunt_id = 1, num_pages = 1\<rparr>"

definition banana_submission :: submission where
  "banana_submission =
     \<lparr>pk = Some 1, adding = False, submission.team_id = 3, submission_time = 100,
      submission_text = lit ''banana'', response_text = [], submission.puzzle_id = 7,
      modified_date = 100\<rparr>"

definition team_foo :: team where
  "team_foo =
     \<lparr>pk = Some 1, adding = False, team_name = lit ''Foo'', team.hunt_id = 1,
      team.location = lit ''Room'', join_code = lit ''ABCDE'', playtester = False\<rparr>"

definition team_bar :: team where
  "team_bar =
     \<lparr>pk = Some 2, adding = False, team_name = lit ''Bar'', team.hunt_id = 1,
      team.location = lit ''yes'', join_code = lit ''AHQX6'', playtester = False\<rparr>"

definition team_baz :: team where
  "team_baz =
     \<lparr>pk = Some 1, adding = False, team_name = lit ''Baz'', team.hunt_id = 1,
      team.location = lit ''Room'', join_code = lit ''QRSTU'', playtester = False\<rparr>"

definition db_foo :: "(nat \<times> nat) list \<Rightarrow> db" where
  "db_foo members =
     \<lparr>Hunt_objects = [first_hunt], Team_objects = [team_foo], Person_teams = members\<rparr>"

definition db_baz :: "(nat \<times> nat) list \<Rightarrow> db" where
  "db_baz members =
     \<lparr>Hunt_objects = [first_hunt], Team_objects = [team_baz], Person_teams = members\<rparr>"

definition new_team_request :: "unicode \<Rightarrow> request" where
  "new_team_request name =
     \<lparr>method = ''POST'',
      POST = map_of [(''form_type'', lit ''new_team''), (''team_name'', name),
                     (''need_room'', lit ''yes'')],
      user = User (Some 9)\<rparr>"

definition join_team_request :: "unicode \<Rightarrow> unicode \<Rightarrow> request" where
  "join_team_request name code =
     \<lparr>method = ''POST'',
      POST = map_of [(''form_type'', lit ''join_team''), (''team_name'', name),
                     (''join_code'', code)],
      user = User (Some 9)\<rparr>"

definition latin_ucd :: "nat \<Rightarrow> nat" where
  "latin_ucd c =
     (if 192 \<le> c \<and> c \<le> 222 \<and> c \<noteq> 215 then c + 32
      else if c = 8490 then 107
      else c)"


section \<open>Lowering and equality ignoring case\<close>

text \<open>On ASCII, moving the capitals up by 32 is reading the two alphabets.\<close>

lemma ascii_lower_case_form:
  "\<forall>c \<in> set [0..<128].
     (if 65 \<le> c \<and> c \<le> 90 then c + 32 else c)
       = (case map_of (zip upper_case_letters lower_case_letters) c of Some l \<Rightarrow> l | None \<Rightarrow> c)"
  by code_simp

lemma to_lower_form: "to_lower ucd c = lower_case_form ucd c"
proof (cases "c < 128")
  case True
  then have "c \<in> set [0..<128]" by simp
  with ascii_lower_case_form
  have "(if 65 \<le> c \<and> c \<le> 90 then c + 32 else c)
          = (case map_of (zip upper_case_letters lower_case_letters) c of Some l \<Rightarrow> l | None \<Rightarrow> c)"
    by (rule bspec)
  then show ?thesis
    using True by (auto simp: to_lower_def lower_case_form_def split: if_splits)
next
  case False
  then show ?thesis by (simp add: to_lower_def lower_case_form_def)
qed

lemma map_eq_iff_list_all2: "map f s = map f t \<longleftrightarrow> list_all2 (\<lambda>a b. f a = f b) s t"
proof (induction s arbitrary: t)
  case Nil
  show ?case by simp
next
  case (Cons a s)
  show ?case
  proof (cases t)
    case Nil
    then show ?thesis by simp
  next
    case (Cons b t')
    then show ?thesis using Cons.IH [of t'] by simp
  qed
qed

lemma lower_eq_iff: "lower ucd s = lower ucd t \<longleftrightarrow> equal_ignoring_case ucd s t"
proof -
  have "same_letter ucd = (\<lambda>a b. to_lower ucd a = to_lower ucd b)"
    by (simp add: fun_eq_iff same_letter_def to_lower_form)
  then show ?thesis
    by (simp add: lower_def equal_ignoring_case_def map_eq_iff_list_all2)
qed

text \<open>
  C4.  For every case table and every submission whose puzzle is stored, \<open>is_correct\<close> is
  true exactly when the submitted text and the puzzle's answer are equal ignoring case.
\<close>

theorem is_correct_iff_equal_ignoring_case:
  assumes "get_by_pk (Some (submission.puzzle_id s)) puzzles = Inr p"
  shows "is_correct ucd puzzles s = Inr (equal_ignoring_case ucd (submission_text s) (answer p))"
  using assms by (simp add: is_correct_def lower_eq_iff)

text \<open>
  The puzzle with the answer "BANANA" and the submission "banana": graded correct,
  whatever the case table says beyond ASCII.
\<close>

theorem is_correct_iff_equal_ignoring_case_witness:
  "\<forall>ucd. get_by_pk (Some (submission.puzzle_id banana_submission)) [banana_puzzle]
             = Inr banana_puzzle
         \<and> submission_text banana_submission = lit ''banana''
         \<and> answer banana_puzzle = lit ''BANANA''
         \<and> is_correct ucd [banana_puzzle] banana_submission = Inr True"
proof
  fix ucd :: "nat \<Rightarrow> nat"
  have stored: "get_by_pk (Some (submission.puzzle_id banana_submission)) [banana_puzzle]
                  = Inr banana_puzzle"
    by code_simp
  have texts: "submission_text banana_submission = lit ''banana''"
      "answer banana_puzzle = lit ''BANANA''"
    by (simp_all add: banana_submission_def banana_puzzle_def)
  have same: "equal_ignoring_case ucd (lit ''banana'') (lit ''BANANA'')"
    by (simp add: equal_ignoring_case_def same_letter_def lower_case_form_def lit_def
          upper_case_letters_def lower_case_letters_def)
  show "get_by_pk (Some (submission.puzzle_id banana_submission)) [banana_puzzle]
             = Inr banana_puzzle
         \<and> submission_text banana_submission = lit ''banana''
         \<and> answer banana_puzzle = lit ''BANANA''
         \<and> is_correct ucd [banana_puzzle] banana_submission = Inr True"
    using is_correct_iff_equal_ignoring_case [OF stored, of ucd] stored texts same by simp
qed

text \<open>
  Beyond ASCII the comparison follows the case table: with the excerpt \<open>latin_ucd\<close>, the
  text C, A, F, U+00C9 is graded correct against the answer c, a, f, U+00E9, and the
  Kelvin sign U+212A is the same letter as \<open>k\<close> and as \<open>K\<close>.
\<close>

lemma is_correct_beyond_ascii:
  "is_correct latin_ucd [banana_puzzle\<lparr>answer := [99, 97, 102, 233]\<rparr>]
     (banana_submission\<lparr>submission_text := [67, 65, 70, 201]\<rparr>) = Inr True
   \<and> equal_ignoring_case latin_ucd [8490] (lit ''k'')
   \<and> lower latin_ucd [8490] = lower latin_ucd (lit ''K'')"
  by code_simp


section \<open>Keys and well-formed tables\<close>

lemma pks_set: "set (pks rows) = {k. Some k \<in> set (map pk rows)}"
  by (induction rows) (auto split: option.splits)

lemma fold_max_ge: "(a::nat) \<le> fold max ks a \<and> (\<forall>k \<in> set ks. k \<le> fold max ks a)"
proof (induction ks arbitrary: a)
  case Nil
  show ?case by simp
next
  case (Cons k ks)
  have "max k a \<le> fold max ks (max k a)" and "\<forall>j \<in> set ks. j \<le> fold max ks (max k a)"
    using Cons.IH [of "max k a"] by simp_all
  then show ?case by auto
qed

lemma next_pk_fresh: "Some (next_pk rows) \<notin> set (map pk rows)"
proof
  assume "Some (next_pk rows) \<in> set (map pk rows)"
  then have "next_pk rows \<in> set (pks rows)" by (simp add: pks_set)
  then have "next_pk rows \<le> fold max (pks rows) 0" using fold_max_ge by blast
  then show False by (simp add: next_pk_def)
qed

lemma next_pk_not_in_pks: "next_pk rows \<notin> set (pks rows)"
  using next_pk_fresh [of rows] by (simp add: pks_set)

lemma map_pk_replace:
  "(\<And>r. pk r = Some k \<Longrightarrow> pk (f r) = Some k) \<Longrightarrow>
   map pk (map (\<lambda>r. if pk r = Some k then f r else r) rows) = map pk rows"
  by (induction rows) auto

lemma well_formed_cong: "map pk rows' = map pk rows \<Longrightarrow> well_formed rows' = well_formed rows"
  by (simp only: well_formed_def)

lemma well_formed_append:
  "well_formed rows \<Longrightarrow> pk obj = Some k \<Longrightarrow> Some k \<notin> set (map pk rows) \<Longrightarrow>
   well_formed (rows @ [obj])"
  by (simp add: well_formed_def)

lemma filter_pk_absent:
  "Some k \<notin> set (map pk rows) \<Longrightarrow> filter (\<lambda>r. pk r = Some k) rows = []"
  by (induction rows) auto

lemma filter_replace_one:
  assumes "distinct (map pk rows)" "Some k \<in> set (map pk rows)" "\<forall>r \<in> set rows. \<not> P r" "P obj"
  shows "filter P (map (\<lambda>r. if pk r = Some k then obj else r) rows) = [obj]"
  using assms
proof (induction rows)
  case Nil
  then show ?case by simp
next
  case (Cons r rows)
  show ?case
  proof (cases "pk r = Some k")
    case True
    then have "Some k \<notin> set (map pk rows)" using Cons.prems(1) by auto
    then have "map (\<lambda>r. if pk r = Some k then obj else r) rows = rows"
      by (induction rows) auto
    then show ?thesis using True Cons.prems by simp
  next
    case False
    then show ?thesis using Cons by auto
  qed
qed

lemma filter_replace_same:
  assumes "\<forall>r \<in> set rows. pk r = Some k \<longrightarrow> \<not> P r" "\<not> P obj"
  shows "filter P (map (\<lambda>r. if pk r = Some k then obj else r) rows) = filter P rows"
  using assms by (induction rows) auto

lemma filter_pk_replace:
  assumes "distinct (map pk rows)" "Some k \<in> set (map pk rows)" "pk obj = Some k"
  shows "filter (\<lambda>r. pk r = Some k) (map (\<lambda>r. if pk r = Some k then obj else r) rows) = [obj]"
  using assms
proof (induction rows)
  case Nil
  then show ?case by simp
next
  case (Cons r rows)
  show ?case
  proof (cases "pk r = Some k")
    case True
    then have no: "Some k \<notin> set (map pk rows)" using Cons.prems(1) by auto
    then have "map (\<lambda>r. if pk r = Some k then obj else r) rows = rows"
      by (induction rows) auto
    moreover have "filter (\<lambda>r. pk r = Some k) rows = []"
      using no by (rule filter_pk_absent)
    ultimately show ?thesis using True Cons.prems by simp
  next
    case False
    then show ?thesis using Cons by auto
  qed
qed

lemma objects_get_Inr: "objects_get P rows = Inr r \<Longrightarrow> filter P rows = [r]"
  by (auto simp: objects_get_def split: list.splits)

lemma objects_get_none: "\<forall>r \<in> set rows. \<not> P r \<Longrightarrow> objects_get P rows = Inl DoesNotExist"
  by (simp add: objects_get_def filter_empty_conv [THEN iffD2])

text \<open>
  A call of \<open>Model.save\<close> without arguments and without a fault of the database always
  succeeds: it inserts under a new key, replaces the row of the key, or inserts under
  the instance's key.
\<close>

lemma Model_save_plain:
  "Model_save cols assign plain None rows obj =
     (case pk obj of
        None \<Rightarrow> (rows @ [obj\<lparr>pk := Some (next_pk rows), adding := False\<rparr>],
                 Inr (obj\<lparr>pk := Some (next_pk rows), adding := False\<rparr>))
      | Some k \<Rightarrow>
          if k \<in> set (pks rows)
          then (map (\<lambda>r. if pk r = Some k then obj\<lparr>adding := False\<rparr> else r) rows,
                Inr (obj\<lparr>adding := False\<rparr>))
          else (rows @ [obj\<lparr>adding := False\<rparr>], Inr (obj\<lparr>adding := False\<rparr>)))"
  by (simp add: Model_save_def plain_def Let_def split: option.splits)

lemma Model_save_plain_result:
  "\<exists>obj'. snd (Model_save cols assign plain None rows obj) = Inr obj'
      \<and> obj' = obj\<lparr>pk := pk obj', adding := False\<rparr>
      \<and> (pk obj \<noteq> None \<longrightarrow> pk obj' = pk obj)"
  by (auto simp: Model_save_plain split: option.splits)

lemma well_formed_Model_save_plain:
  assumes "well_formed rows"
  shows "well_formed (fst (Model_save cols assign plain None rows obj))"
proof (cases "pk obj")
  case None
  then show ?thesis
    using assms next_pk_fresh [of rows]
    by (simp add: Model_save_plain well_formed_def)
next
  case (Some k)
  show ?thesis
  proof (cases "k \<in> set (pks rows)")
    case True
    have "map pk (map (\<lambda>r. if pk r = Some k then obj\<lparr>adding := False\<rparr> else r) rows) = map pk rows"
      using Some by (intro map_pk_replace) simp
    then have "well_formed (map (\<lambda>r. if pk r = Some k then obj\<lparr>adding := False\<rparr> else r) rows)
                 = well_formed rows"
      by (rule well_formed_cong)
    then show ?thesis
      using assms Some True by (simp add: Model_save_plain)
  next
    case False
    then have "Some k \<notin> set (map pk rows)" by (simp add: pks_set)
    then show ?thesis
      using assms Some False by (simp add: Model_save_plain well_formed_def)
  qed
qed

lemma Model_save_plain_all_clear:
  assumes "well_formed rows" "\<forall>r \<in> set rows. \<not> P r" "\<And>k a. P (obj\<lparr>pk := k, adding := a\<rparr>)"
  shows "\<exists>obj'. Model_save cols assign plain None rows obj
                   = (fst (Model_save cols assign plain None rows obj), Inr obj')
            \<and> filter P (fst (Model_save cols assign plain None rows obj)) = [obj']"
proof -
  have P': "P (obj\<lparr>adding := False\<rparr>)"
    using assms(3) [where k = "pk obj" and a = False] by simp
  show ?thesis
  proof (cases "pk obj")
    case None
    then show ?thesis using assms by (simp add: Model_save_plain)
  next
    case (Some k)
    show ?thesis
    proof (cases "k \<in> set (pks rows)")
      case True
      then have "Some k \<in> set (map pk rows)" by (simp add: pks_set)
      then show ?thesis
        using assms(1,2) P' Some True filter_replace_one [of rows k P "obj\<lparr>adding := False\<rparr>"]
        by (simp add: Model_save_plain well_formed_def)
    next
      case False
      then show ?thesis using assms(2) P' Some by (simp add: Model_save_plain)
    qed
  qed
qed

lemma get_after_Model_save_plain:
  assumes "well_formed rows" "Model_save cols assign plain None rows obj = (rows', Inr obj')"
  shows "get_by_pk (pk obj') rows' = Inr obj'"
proof (cases "pk obj")
  case None
  have "filter (\<lambda>r. pk r = Some (next_pk rows)) rows = []"
    using next_pk_fresh [of rows] by (rule filter_pk_absent)
  then show ?thesis
    using None assms(2) by (auto simp: Model_save_plain get_by_pk_def objects_get_def)
next
  case (Some k)
  show ?thesis
  proof (cases "k \<in> set (pks rows)")
    case True
    then have "Some k \<in> set (map pk rows)" by (simp add: pks_set)
    then have one: "filter (\<lambda>r. pk r = Some k)
                     (map (\<lambda>r. if pk r = Some k then obj\<lparr>adding := False\<rparr> else r) rows)
                   = [obj\<lparr>adding := False\<rparr>]"
      using assms(1) Some by (intro filter_pk_replace) (simp_all add: well_formed_def)
    have "rows' = map (\<lambda>r. if pk r = Some k then obj\<lparr>adding := False\<rparr> else r) rows"
      and "obj' = obj\<lparr>adding := False\<rparr>"
      using assms(2) Some True by (simp_all add: Model_save_plain)
    then show ?thesis
      using one Some by (simp add: get_by_pk_def objects_get_def)
  next
    case False
    then have "Some k \<notin> set (map pk rows)" by (simp add: pks_set)
    then have "filter (\<lambda>r. pk r = Some k) rows = []"
      by (rule filter_pk_absent)
    then show ?thesis
      using Some False assms(2) by (auto simp: Model_save_plain get_by_pk_def objects_get_def)
  qed
qed


section \<open>The current hunt\<close>

lemma map_pk_clear_current: "map pk (clear_current hunts) = map pk hunts"
  by (induction hunts) (auto simp: clear_current_def)

lemma well_formed_clear_current: "well_formed hunts \<Longrightarrow> well_formed (clear_current hunts)"
  using well_formed_cong [OF map_pk_clear_current] by simp

lemma clear_current_none: "r \<in> set (clear_current hunts) \<Longrightarrow> \<not> is_current_hunt r"
  by (auto simp: clear_current_def)

text \<open>
  The transaction.  Whatever the arguments of the call and whatever the database does,
  a save that raises leaves the table as it was: the rollback undoes the clearing of
  the flags.  A save that validation refuses raises before it writes.
\<close>

lemma Hunt_save_raises_unchanged:
  "Hunt_save kw fault hunts h = (hunts', Inl e) \<Longrightarrow> hunts' = hunts"
  by (auto simp: Hunt_save_def atomic_def split: prod.splits sum.splits)

lemma Hunt_save_refused:
  "Hunt_full_clean hunts h = Inl e \<Longrightarrow> Hunt_save kw fault hunts h = (hunts, Inl e)"
  by (simp add: Hunt_save_def Hunt_save_body_def atomic_def)

text \<open>
  The rollback at work: the database fails at the insert of a new current hunt.  The
  body of the method has cleared the flag of the stored hunt by then; the transaction
  gives the stored hunt its flag back.  The same happens when the call forces an insert
  under a key that is taken.
\<close>

lemma Hunt_save_rolls_back:
  "Hunt_save_body plain (Some DatabaseError) (second_hunt\<lparr>pk := None, adding := True\<rparr>) [first_hunt]
     = ([first_hunt\<lparr>is_current_hunt := False\<rparr>], Inl DatabaseError)
   \<and> Hunt_save plain (Some DatabaseError) [first_hunt] (second_hunt\<lparr>pk := None, adding := True\<rparr>)
     = ([first_hunt], Inl DatabaseError)
   \<and> Hunt_save_body \<lparr>force_insert = True, force_update = False, update_fields = None\<rparr> None
       (first_hunt\<lparr>hunt_name := lit ''Renamed''\<rparr>) [first_hunt]
     = ([first_hunt\<lparr>is_current_hunt := False\<rparr>], Inl IntegrityError)
   \<and> Hunt_save \<lparr>force_insert = True, force_update = False, update_fields = None\<rparr> None
       [first_hunt] (first_hunt\<lparr>hunt_name := lit ''Renamed''\<rparr>)
     = ([first_hunt], Inl IntegrityError)"
  by code_simp

text \<open>
  A call without arguments and without a fault of the database succeeds exactly when
  validation passes, and then it is the write of the instance into the table with the
  flags cleared (when the instance has the flag) or into the table as it is.
\<close>

lemma Hunt_save_plain:
  "Hunt_save plain None hunts h =
     (case Hunt_full_clean hunts h of
        Inl e \<Rightarrow> (hunts, Inl e)
      | Inr _ \<Rightarrow>
          Model_save Hunt_columns Hunt_assign plain None
            (if is_current_hunt h then clear_current hunts else hunts) h)"
proof (cases "Hunt_full_clean hunts h")
  case (Inl e)
  then show ?thesis by (simp add: Hunt_save_refused)
next
  case (Inr u)
  obtain obj' where "snd (Model_save Hunt_columns Hunt_assign plain None
            (if is_current_hunt h then clear_current hunts else hunts) h) = Inr obj'"
    using Model_save_plain_result by blast
  then show ?thesis
    using Inr
    by (cases "Model_save Hunt_columns Hunt_assign plain None
            (if is_current_hunt h then clear_current hunts else hunts) h")
       (simp add: Hunt_save_def Hunt_save_body_def atomic_def)
qed

lemma well_formed_Hunt_save:
  assumes "well_formed hunts"
  shows "well_formed (fst (Hunt_save plain None hunts h))"
  using assms
  by (cases "Hunt_full_clean hunts h")
     (simp_all add: Hunt_save_plain well_formed_Model_save_plain well_formed_clear_current)

lemma well_formed_save_all: "well_formed hunts \<Longrightarrow> well_formed (save_all hunts hs)"
  by (induction hs arbitrary: hunts) (simp_all add: well_formed_Hunt_save)

text \<open>
  Saving a hunt that has the flag, by a call without arguments: when validation passes
  and the database does not fail, the new table is the old one with the flag cleared on
  every stored hunt and the instance written on top of that, the stored instance \<open>h'\<close>
  is the saved one with its key, and \<open>h'\<close> is the one and only current hunt.
\<close>

lemma save_current_plain:
  assumes wf: "well_formed hunts"
    and cur: "is_current_hunt h"
    and ok: "Hunt_full_clean hunts h = Inr v"
  shows "\<exists>hunts' h'. Hunt_save plain None hunts h = (hunts', Inr h')
            \<and> hunts' = fst (Model_save Hunt_columns Hunt_assign plain None (clear_current hunts) h)
            \<and> h' = h\<lparr>pk := pk h', adding := False\<rparr>
            \<and> filter is_current_hunt hunts' = [h']
            \<and> number_current hunts' = 1"
proof -
  let ?m = "Model_save Hunt_columns Hunt_assign plain None (clear_current hunts) h"
  have wf': "well_formed (clear_current hunts)"
    using wf by (rule well_formed_clear_current)
  obtain h' where m: "?m = (fst ?m, Inr h')" and one: "filter is_current_hunt (fst ?m) = [h']"
    using Model_save_plain_all_clear [OF wf', of is_current_hunt h Hunt_columns Hunt_assign]
      cur clear_current_none by auto
  have "h' = h\<lparr>pk := pk h', adding := False\<rparr>"
    using Model_save_plain_result [of Hunt_columns Hunt_assign "clear_current hunts" h] m
    by (metis Inr_inject snd_conv)
  moreover have "Hunt_save plain None hunts h = (fst ?m, Inr h')"
    using ok cur m by (simp add: Hunt_save_plain)
  ultimately show ?thesis
    using one by (simp add: number_current_def)
qed

text \<open>
  The flag over all such saves.  A save of a hunt without the flag passes validation
  only when the stored row under its key, if there is one, is without the flag too, so
  it leaves the number of current hunts as it is; with the above, a well-formed table
  with exactly one current hunt has exactly one after every sequence of calls \<open>save()\<close>.
\<close>

lemma Hunt_clean_ok_stored:
  assumes "Hunt_full_clean hunts h = Inr v" "\<not> is_current_hunt h" "pk h = Some k"
    "r \<in> set hunts" "pk r = Some k"
  shows "\<not> is_current_hunt r"
proof -
  have ne: "filter (\<lambda>r. pk r = Some k) hunts \<noteq> []"
    using assms(4,5) by (auto simp: filter_empty_conv)
  from assms(1) obtain w where "Hunt_clean hunts h = Inr w"
    by (auto simp: Hunt_full_clean_def split: sum.splits error.splits)
  then obtain old where old: "get_by_pk (Some k) hunts = Inr old" "\<not> is_current_hunt old"
    using assms(2,3) ne
    by (auto simp: Hunt_clean_def get_by_pk_def objects_get_def
             split: sum.splits error.splits if_splits list.splits)
  then have "filter (\<lambda>r. pk r = Some k) hunts = [old]"
    by (simp add: get_by_pk_def objects_get_Inr)
  moreover have "r \<in> set (filter (\<lambda>r. pk r = Some k) hunts)"
    using assms(4,5) by simp
  ultimately have "r \<in> set [old]"
    by simp
  then show ?thesis using old(2) by simp
qed

lemma number_current_other_save:
  assumes "\<not> is_current_hunt h"
  shows "number_current (fst (Hunt_save plain None hunts h)) = number_current hunts"
proof (cases "Hunt_full_clean hunts h")
  case (Inl e)
  then show ?thesis by (simp add: Hunt_save_refused)
next
  case (Inr v)
  then have run: "fst (Hunt_save plain None hunts h)
                    = fst (Model_save Hunt_columns Hunt_assign plain None hunts h)"
    using assms by (simp add: Hunt_save_plain)
  show ?thesis
  proof (cases "pk h")
    case None
    then show ?thesis
      using assms run by (simp add: Model_save_plain number_current_def)
  next
    case (Some k)
    have "\<forall>r \<in> set hunts. pk r = Some k \<longrightarrow> \<not> is_current_hunt r"
      using Hunt_clean_ok_stored [OF Inr assms Some] by blast
    moreover have "\<not> is_current_hunt (h\<lparr>adding := False\<rparr>)"
      using assms by simp
    ultimately have "filter is_current_hunt
                       (map (\<lambda>r. if pk r = Some k then h\<lparr>adding := False\<rparr> else r) hunts)
                 = filter is_current_hunt hunts"
      by (rule filter_replace_same)
    then show ?thesis
      using assms run Some by (simp add: Model_save_plain number_current_def)
  qed
qed

lemma number_current_save:
  assumes "well_formed hunts" "number_current hunts = 1"
  shows "number_current (fst (Hunt_save plain None hunts h)) = 1"
proof (cases "is_current_hunt h")
  case False
  then show ?thesis using assms(2) by (simp add: number_current_other_save)
next
  case True
  show ?thesis
  proof (cases "Hunt_full_clean hunts h")
    case (Inl e)
    then show ?thesis using assms(2) by (simp add: Hunt_save_refused)
  next
    case (Inr v)
    then show ?thesis
      using save_current_plain [OF assms(1) True Inr] by auto
  qed
qed

lemma number_current_save_all:
  "well_formed hunts \<Longrightarrow> number_current hunts = 1 \<Longrightarrow> number_current (save_all hunts hs) = 1"
  by (induction hs arbitrary: hunts) (simp_all add: number_current_save well_formed_Hunt_save)

text \<open>
  C1.  The method passes the arguments of the call on to \<open>Model.save\<close>.  The stored
  current hunt, renamed and saved with \<open>update_fields=['hunt_name']\<close>: validation
  passes, the flag is cleared on every stored hunt, the row of the hunt among them, and
  then only the name is written.  The save succeeds, the instance in the program still
  has the flag, and the table has no current hunt: the lookup of the current hunt
  raises \<open>DoesNotExist\<close>.
\<close>

theorem save_update_fields_no_current:
  "Hunt_get_current [first_hunt] = Inr first_hunt
   \<and> is_current_hunt (first_hunt\<lparr>hunt_name := lit ''Renamed''\<rparr>)
   \<and> Hunt_save \<lparr>force_insert = False, force_update = False, update_fields = Some [''hunt_name'']\<rparr>
        None [first_hunt] (first_hunt\<lparr>hunt_name := lit ''Renamed''\<rparr>)
     = ([first_hunt\<lparr>hunt_name := lit ''Renamed'', is_current_hunt := False\<rparr>],
        Inr (first_hunt\<lparr>hunt_name := lit ''Renamed''\<rparr>))
   \<and> number_current
        (fst (Hunt_save
               \<lparr>force_insert = False, force_update = False, update_fields = Some [''hunt_name'']\<rparr>
               None [first_hunt] (first_hunt\<lparr>hunt_name := lit ''Renamed''\<rparr>)))
     = 0
   \<and> Hunt_get_current
        (fst (Hunt_save
               \<lparr>force_insert = False, force_update = False, update_fields = Some [''hunt_name'']\<rparr>
               None [first_hunt] (first_hunt\<lparr>hunt_name := lit ''Renamed''\<rparr>)))
     = Inl DoesNotExist"
  by code_simp

text \<open>
  C2.  Let \<open>h\<close> be an instance of a stored hunt \<open>old\<close> (the lookup by \<open>h\<close>'s key finds
  \<open>old\<close>) whose stored flag is set, and let \<open>h\<close> have \<open>is_current_hunt = False\<close>.  Then
  \<open>clean\<close> raises the validation error "There must always be one current hunt" on the
  field, full validation raises a validation error that contains it, and the save is
  refused before anything is written, whatever the arguments of the call: the table is
  unchanged, with and without the transaction's rollback, and the stored hunt is still
  \<open>old\<close>.
\<close>

theorem unset_current_rejected:
  assumes "get_by_pk (pk h) hunts = Inr old"
    and "is_current_hunt old"
    and "\<not> is_current_hunt h"
  shows "Hunt_clean hunts h
           = Inl (ValidationError [(''is_current_hunt'', [''There must always be one current hunt''])])
       \<and> (\<exists>errs. Hunt_full_clean hunts h = Inl (ValidationError errs)
                \<and> (''is_current_hunt'', [''There must always be one current hunt'']) \<in> set errs
                \<and> Hunt_save_body kw fault h hunts = (hunts, Inl (ValidationError errs))
                \<and> Hunt_save kw fault hunts h = (hunts, Inl (ValidationError errs)))
       \<and> get_by_pk (pk h) (fst (Hunt_save kw fault hunts h)) = Inr old"
proof -
  have "Hunt_clean hunts h
          = Inl (ValidationError [(''is_current_hunt'', [''There must always be one current hunt''])])"
    using assms by (simp add: Hunt_clean_def)
  then show ?thesis
    using assms(1)
    by (simp add: Hunt_full_clean_def Hunt_save_body_def Hunt_save_def atomic_def)
qed

theorem unset_current_rejected_witness:
  "get_by_pk (pk (first_hunt\<lparr>is_current_hunt := False\<rparr>)) [first_hunt] = Inr first_hunt
   \<and> is_current_hunt first_hunt
   \<and> \<not> is_current_hunt (first_hunt\<lparr>is_current_hunt := False\<rparr>)
   \<and> Hunt_save plain None [first_hunt] (first_hunt\<lparr>is_current_hunt := False\<rparr>)
     = ([first_hunt],
        Inl (ValidationError [(''is_current_hunt'', [''There must always be one current hunt''])]))"
proof -
  have stored: "get_by_pk (pk (first_hunt\<lparr>is_current_hunt := False\<rparr>)) [first_hunt] = Inr first_hunt"
    by code_simp
  have flag: "is_current_hunt first_hunt"
    by code_simp
  have unset: "\<not> is_current_hunt (first_hunt\<lparr>is_current_hunt := False\<rparr>)"
    by code_simp
  have run: "Hunt_save plain None [first_hunt] (first_hunt\<lparr>is_current_hunt := False\<rparr>)
     = ([first_hunt],
        Inl (ValidationError [(''is_current_hunt'', [''There must always be one current hunt''])]))"
    by code_simp
  show ?thesis
    using unset_current_rejected [OF stored flag unset, of plain None] stored flag unset run
    by blast
qed


section \<open>The derived states of a hunt\<close>

text \<open>The three properties are three strict comparisons.\<close>

lemma hunt_states_comparisons:
  "(is_locked now h \<longleftrightarrow> now < start_date h)
   \<and> (is_open_at now1 now2 h \<longleftrightarrow> start_date h < now1 \<and> now2 < end_date h)
   \<and> (is_open now h \<longleftrightarrow> start_date h < now \<and> now < end_date h)
   \<and> (is_public now h \<longleftrightarrow> end_date h < now)"
  by (auto simp: is_locked_def is_open_def is_open_at_def is_public_def)

text \<open>
  C3.  A hunt that runs from 10 to 20.  At the instant \<open>now = start_date\<close> it is not open,
  although \<open>start_date \<le> now < end_date\<close>, and it is neither locked nor public; at the
  instant \<open>now = end_date\<close> it is not public, although \<open>end_date \<le> now\<close>, and it is neither
  locked nor open.  At both instants none of the three states holds, also when the two
  readings of the clock in \<open>is_open\<close> are taken apart.
\<close>

theorem hunt_states_at_boundary:
  "start_date first_hunt = 10 \<and> end_date first_hunt = 20
   \<and> \<not> is_locked 10 first_hunt
   \<and> \<not> is_open 10 first_hunt
   \<and> \<not> is_open_at 10 10 first_hunt
   \<and> \<not> is_public 10 first_hunt
   \<and> \<not> is_locked 20 first_hunt
   \<and> \<not> is_open 20 first_hunt
   \<and> \<not> is_open_at 20 20 first_hunt
   \<and> \<not> is_public 20 first_hunt"
  by (simp add: first_hunt_def is_locked_def is_open_def is_open_at_def is_public_def)


section \<open>One solve for a team and a puzzle\<close>

lemma has_solve_iff: "has_solve solves p t \<longleftrightarrow> 0 < number_solves solves p t"
  by (auto simp: has_solve_def number_solves_def filter_empty_conv)

lemma Solve_create_cases:
  "(has_solve solves p t \<and> Solve_create solves p t s = (solves, Inl IntegrityError)) \<or>
   (\<not> has_solve solves p t \<and>
    Solve_create solves p t s =
      (solves @ [\<lparr>pk = Some (next_pk solves), adding = False, solve.puzzle_id = p,
                  solve.team_id = t, submission_id = s\<rparr>],
       Inr \<lparr>pk = Some (next_pk solves), adding = False, solve.puzzle_id = p,
            solve.team_id = t, submission_id = s\<rparr>))"
  by (simp add: Solve_create_def objects_create_def Let_def)

lemma record_solve_cases:
  "(has_solve solves p t \<and> record_solve solves p t s = (solves, Inr AlreadySolved)) \<or>
   (\<not> has_solve solves p t \<and>
    record_solve solves p t s =
      (solves @ [\<lparr>pk = Some (next_pk solves), adding = False, solve.puzzle_id = p,
                  solve.team_id = t, submission_id = s\<rparr>],
       Inr (Solved \<lparr>pk = Some (next_pk solves), adding = False, solve.puzzle_id = p,
                    solve.team_id = t, submission_id = s\<rparr>)))"
  using Solve_create_cases [of solves p t s] by (auto simp: record_solve_def)

lemma record_solve_unique:
  assumes "\<forall>p t. number_solves solves p t \<le> 1"
  shows "number_solves (fst (record_solve solves p t s)) p' t' \<le> 1"
proof -
  have old: "number_solves solves p' t' \<le> 1" using assms by blast
  from record_solve_cases [of solves p t s] show ?thesis
  proof (elim disjE conjE)
    assume "record_solve solves p t s = (solves, Inr AlreadySolved)"
    then show ?thesis using old by simp
  next
    assume none: "\<not> has_solve solves p t"
      and new: "record_solve solves p t s =
        (solves @ [\<lparr>pk = Some (next_pk solves), adding = False, solve.puzzle_id = p,
                    solve.team_id = t, submission_id = s\<rparr>],
         Inr (Solved \<lparr>pk = Some (next_pk solves), adding = False, solve.puzzle_id = p,
                      solve.team_id = t, submission_id = s\<rparr>))"
    have "number_solves solves p t = 0" using none by (simp add: has_solve_iff)
    then show ?thesis using old new by (auto simp: number_solves_def)
  qed
qed

lemma record_solves_unique:
  "\<forall>p t. number_solves solves p t \<le> 1 \<Longrightarrow> \<forall>p t. number_solves (record_solves solves reqs) p t \<le> 1"
proof (induction reqs arbitrary: solves)
  case Nil
  then show ?case by simp
next
  case (Cons r reqs)
  obtain p t s where r: "r = (p, t, s)" by (cases r) auto
  have "\<forall>p' t'. number_solves (fst (record_solve solves p t s)) p' t' \<le> 1"
    using record_solve_unique [OF Cons.prems] by blast
  then show ?case using Cons.IH r by simp
qed

text \<open>
  C5.  Take a table of solves with at most one row for every pair of puzzle and team (the
  empty table is one) and record any sequence of solves.  Then every pair still has at
  most one row; a further attempt for a pair that has a row makes the insert fail with
  the integrity error of the uniqueness constraint, which the recording step turns into
  "already solved" with the table unchanged; and the recording step never ends in an
  error and always leaves the pair solved.
\<close>

theorem solve_at_most_once:
  assumes "\<forall>p t. number_solves solves p t \<le> 1"
  shows "(\<forall>p t. number_solves (record_solves solves reqs) p t \<le> 1)
       \<and> (has_solve (record_solves solves reqs) p t \<longrightarrow>
            Solve_create (record_solves solves reqs) p t s
              = (record_solves solves reqs, Inl IntegrityError)
            \<and> record_solve (record_solves solves reqs) p t s
              = (record_solves solves reqs, Inr AlreadySolved))
       \<and> (\<exists>out. snd (record_solve (record_solves solves reqs) p t s) = Inr out)
       \<and> has_solve (fst (record_solve (record_solves solves reqs) p t s)) p t"
proof -
  let ?db = "record_solves solves reqs"
  have a: "\<forall>p t. number_solves ?db p t \<le> 1"
    using assms by (rule record_solves_unique)
  have b: "has_solve ?db p t \<longrightarrow>
            Solve_create ?db p t s = (?db, Inl IntegrityError)
            \<and> record_solve ?db p t s = (?db, Inr AlreadySolved)"
    using Solve_create_cases [of ?db p t s] record_solve_cases [of ?db p t s] by auto
  have c: "\<exists>out. snd (record_solve ?db p t s) = Inr out"
    using record_solve_cases [of ?db p t s] by auto
  have d: "has_solve (fst (record_solve ?db p t s)) p t"
    using record_solve_cases [of ?db p t s] by (auto simp: has_solve_def)
  show ?thesis using a b c d by blast
qed

theorem solve_at_most_once_witness:
  "(\<forall>p t. number_solves [] p t \<le> 1)
   \<and> record_solves [] [(7, 3, 11)]
       = [\<lparr>pk = Some 1, adding = False, solve.puzzle_id = 7, solve.team_id = 3,
           submission_id = 11\<rparr>]
   \<and> has_solve (record_solves [] [(7, 3, 11)]) 7 3
   \<and> Solve_create (record_solves [] [(7, 3, 11)]) 7 3 12
       = (record_solves [] [(7, 3, 11)], Inl IntegrityError)
   \<and> record_solve (record_solves [] [(7, 3, 11)]) 7 3 12
       = (record_solves [] [(7, 3, 11)], Inr AlreadySolved)"
proof -
  have inv: "\<forall>p t. number_solves [] p t \<le> 1"
    by (simp add: number_solves_def)
  have run: "record_solves [] [(7, 3, 11)]
       = [\<lparr>pk = Some 1, adding = False, solve.puzzle_id = 7, solve.team_id = 3,
           submission_id = 11\<rparr>]"
    by code_simp
  have has: "has_solve (record_solves [] [(7, 3, 11)]) 7 3"
    by code_simp
  show ?thesis
    using solve_at_most_once [OF inv, of "[(7, 3, 11)]" 7 3 12] inv has run
    by blast
qed


section \<open>The time stamp of a submission\<close>

text \<open>
  Whatever the arguments of the call, the instance a save returns is the saved one but
  for the key and \<open>_state.adding\<close>.
\<close>

lemma Model_save_result:
  "Model_save cols assign kw fault rows obj = (rows', Inr obj') \<Longrightarrow>
   obj' = obj\<lparr>pk := pk obj', adding := adding obj'\<rparr>"
  by (auto simp: Model_save_def Let_def split: if_splits option.splits)

text \<open>
  Every save that returns has stamped the instance in the program: it has
  \<open>modified_date = now\<close> and is the saved instance in every other field.  After a call
  without arguments (the first save, with no key yet, or a later one) the stamped
  instance is also the row stored under its key.
\<close>

lemma Submission_save_stamps_instance:
  assumes "Submission_save now kw fault submissions s = (submissions', Inr s')"
  shows "modified_date s' = now
       \<and> s' = s\<lparr>pk := pk s', adding := adding s', modified_date := now\<rparr>"
proof -
  have a: "s' = (s\<lparr>modified_date := now\<rparr>)\<lparr>pk := pk s', adding := adding s'\<rparr>"
    using assms unfolding Submission_save_def by (rule Model_save_result)
  have "modified_date s' = now"
    by (subst a) simp
  moreover have "s' = s\<lparr>pk := pk s', adding := adding s', modified_date := now\<rparr>"
    by (subst a) simp
  ultimately show ?thesis by blast
qed

lemma Submission_save_plain_stamps:
  assumes "well_formed submissions"
  shows "\<exists>submissions' s'. Submission_save now plain None submissions s = (submissions', Inr s')
           \<and> s' = s\<lparr>pk := pk s', adding := False, modified_date := now\<rparr>
           \<and> (pk s \<noteq> None \<longrightarrow> pk s' = pk s)
           \<and> get_by_pk (pk s') submissions' = Inr s'"
proof -
  let ?t = "s\<lparr>modified_date := now\<rparr>"
  let ?m = "Model_save Submission_columns Submission_assign plain None submissions ?t"
  obtain s' where s': "snd ?m = Inr s'" "s' = ?t\<lparr>pk := pk s', adding := False\<rparr>"
      "pk ?t \<noteq> None \<longrightarrow> pk s' = pk ?t"
    using Model_save_plain_result [of Submission_columns Submission_assign submissions ?t]
    by blast
  have m: "?m = (fst ?m, Inr s')"
    using s'(1) by (cases ?m) simp
  have "get_by_pk (pk s') (fst ?m) = Inr s'"
    using assms m by (rule get_after_Model_save_plain)
  moreover have "s' = s\<lparr>pk := pk s', adding := False, modified_date := now\<rparr>"
    by (subst s'(2)) simp
  ultimately show ?thesis
    using m s'(3) by (auto simp: Submission_save_def)
qed



section \<open>Creating a team\<close>

lemma choice_in_alphabet: "choice join_code_alphabet r \<in> set join_code_alphabet"
  by (simp add: choice_def join_code_alphabet_def lit_def del: set_simps)

lemma make_join_code_length: "length (make_join_code rnd) = 5"
  by (simp add: make_join_code_def)

lemma make_join_code_alphabet: "set (make_join_code rnd) \<subseteq> set join_code_alphabet"
  using choice_in_alphabet by (auto simp: make_join_code_def)

lemma make_join_code_draws:
  "make_join_code rnd
     = map (\<lambda>i. join_code_alphabet ! (rnd i mod length join_code_alphabet)) [0..<5]"
  by (simp add: make_join_code_def choice_def)

text \<open>
  The alphabet is the capital letters and the digits without \<open>0\<close>, \<open>1\<close>, \<open>O\<close> and \<open>I\<close>, and
  every code of five of its characters is the outcome of some draws.
\<close>

lemma alphabet_content:
  "set join_code_alphabet
     = (set upper_case_letters \<union> set (lit ''0123456789'')) - set (lit ''01OI'')"
  by code_simp

lemma alphabet_unambiguous: "set join_code_alphabet \<inter> set (lit ''01OI'') = {}"
  by (auto simp: alphabet_content)

lemma make_join_code_onto:
  assumes "length c = 5" "set c \<subseteq> set join_code_alphabet"
  shows "\<exists>rnd. make_join_code rnd = c"
proof -
  have "\<forall>i. \<exists>j. i < 5 \<longrightarrow> j < length join_code_alphabet \<and> join_code_alphabet ! j = c ! i"
  proof
    fix i
    show "\<exists>j. i < 5 \<longrightarrow> j < length join_code_alphabet \<and> join_code_alphabet ! j = c ! i"
    proof (cases "i < 5")
      case True
      then have "c ! i \<in> set join_code_alphabet" using assms by auto
      then show ?thesis by (auto simp: in_set_conv_nth)
    next
      case False
      then show ?thesis by simp
    qed
  qed
  then obtain f where f: "\<forall>i. i < 5 \<longrightarrow> f i < length join_code_alphabet \<and> join_code_alphabet ! f i = c ! i"
    by metis
  have "make_join_code f = c"
  proof (rule nth_equalityI)
    show "length (make_join_code f) = length c"
      using assms(1) by (simp add: make_join_code_length)
  next
    fix i
    assume "i < length (make_join_code f)"
    then have i: "i < 5" by (simp add: make_join_code_length)
    then show "make_join_code f ! i = c ! i"
      using f by (simp add: make_join_code_draws)
  qed
  then show ?thesis by blast
qed

lemma iexact_Some: "iexact coll stored (Some s) \<longleftrightarrow> equal_ignoring_case coll stored s"
  by (simp add: iexact_def lower_eq_iff)

lemma new_team_exists:
  assumes "\<exists>t \<in> set (team_set d curr_hunt). equal_ignoring_case coll (team_name t) name"
    and "POST req ''team_name'' = Some name"
  shows "registration_new_team coll rnd own d req curr_hunt = (d, Inr (HttpResponse ''fail-exists''))"
  using assms by (simp add: registration_new_team_def iexact_Some)

lemma new_team_created:
  assumes "\<not> (\<exists>t \<in> set (team_set d curr_hunt). equal_ignoring_case coll (team_name t) name)"
    and "POST req ''team_name'' = Some name" "name \<noteq> []"
    and "POST req ''need_room'' = Some loc"
    and "user req = User (Some p)"
    and "pk curr_hunt = Some hid"
    and "memberships_valid d"
    and "t = \<lparr>pk = Some (next_pk (Team_objects d)), adding = False, team_name = name,
              team.hunt_id = hid, team.location = loc, join_code = make_join_code rnd,
              playtester = False\<rparr>"
  shows "registration_new_team coll rnd own d req curr_hunt
           = (d\<lparr>Team_objects := Team_objects d @ [t],
                Person_teams := Person_teams d @ [(p, next_pk (Team_objects d))]\<rparr>,
              Inr (Render ''registration.html'' [(''registered_team'', TeamValue t)]))"
proof -
  have fresh: "(p, next_pk (Team_objects d)) \<notin> set (Person_teams d)"
    using assms(7) next_pk_not_in_pks [of "Team_objects d"]
    by (auto simp: memberships_valid_def)
  show ?thesis
    using assms(1-6,8) fresh
    by (simp add: registration_new_team_def iexact_Some Team_create_def objects_create_def
          Let_def user_person_def teams_add_def registration_render_def)
qed

lemma person_set_new:
  assumes "memberships_valid d" "pk t = Some (next_pk (Team_objects d))"
  shows "person_set (d\<lparr>Team_objects := ts, Person_teams := Person_teams d @ [(p, next_pk (Team_objects d))]\<rparr>) t = [p]"
proof -
  have "filter (\<lambda>m. snd m = next_pk (Team_objects d)) (Person_teams d) = []"
    using assms(1) next_pk_not_in_pks [of "Team_objects d"]
    by (auto simp: memberships_valid_def filter_empty_conv)
  then show ?thesis using assms(2) by (simp add: person_set_def)
qed

text \<open>
  C7.  A request that reaches the \<open>new_team\<close> branch with the team name \<open>name\<close>, the
  current hunt being \<open>curr_hunt\<close>.  If some team of the current hunt has a name equal to
  \<open>name\<close> ignoring case, the answer is \<open>fail-exists\<close> and the database is unchanged.  If
  none has, the name is not empty, a location is given and the user has a person \<open>p\<close>,
  then one team \<open>t\<close> is appended to the teams, with the requested name, the current hunt
  and the location.  Its join code is drawn at random: character \<open>i\<close> of the five is the
  character of the alphabet at the position of draw \<open>i\<close>, so every character is from the
  alphabet and none is \<open>0\<close>, \<open>1\<close>, \<open>O\<close> or \<open>I\<close>, and every code of five characters of the
  alphabet is the code of the team for some random source.  One membership row for \<open>p\<close>
  and \<open>t\<close> is added, and \<open>p\<close> is the only member of \<open>t\<close>.  The alphabet is the capital
  letters and the digits without \<open>0\<close>, \<open>1\<close>, \<open>O\<close> and \<open>I\<close>.
\<close>

theorem create_team:
  assumes "Hunt_get_current (Hunt_objects d) = Inr curr_hunt"
    and "method req = ''POST''"
    and "POST req ''form_type'' = Some (lit ''new_team'')"
    and "POST req ''team_name'' = Some name"
  shows "((\<exists>t \<in> set (team_set d curr_hunt). equal_ignoring_case coll (team_name t) name) \<longrightarrow>
            registration coll ucd rnd own d req = (d, Inr (HttpResponse ''fail-exists'')))
       \<and> (\<not> (\<exists>t \<in> set (team_set d curr_hunt). equal_ignoring_case coll (team_name t) name)
            \<and> name \<noteq> [] \<and> POST req ''need_room'' = Some loc \<and> user req = User (Some p)
            \<and> pk curr_hunt = Some hid \<and> memberships_valid d \<longrightarrow>
            (\<exists>d' t. registration coll ucd rnd own d req
                       = (d', Inr (Render ''registration.html'' [(''registered_team'', TeamValue t)]))
               \<and> Team_objects d' = Team_objects d @ [t]
               \<and> Hunt_objects d' = Hunt_objects d
               \<and> Person_teams d' = Person_teams d @ [(p, next_pk (Team_objects d))]
               \<and> pk t = Some (next_pk (Team_objects d))
               \<and> team_name t = name \<and> team.hunt_id t = hid \<and> team.location t = loc
               \<and> join_code t
                   = map (\<lambda>i. join_code_alphabet ! (rnd i mod length join_code_alphabet)) [0..<5]
               \<and> length (join_code t) = 5
               \<and> set (join_code t) \<subseteq> set join_code_alphabet
               \<and> set (join_code t) \<inter> set (lit ''01OI'') = {}
               \<and> person_set d' t = [p])
            \<and> (\<forall>c. length c = 5 \<and> set c \<subseteq> set join_code_alphabet \<longrightarrow>
                  (\<exists>rnd' d' t. registration coll ucd rnd' own d req
                       = (d', Inr (Render ''registration.html'' [(''registered_team'', TeamValue t)]))
                     \<and> join_code t = c)))
       \<and> set join_code_alphabet
           = (set upper_case_letters \<union> set (lit ''0123456789'')) - set (lit ''01OI'')"
proof -
  have reg: "registration coll ucd r own d req = registration_new_team coll r own d req curr_hunt"
    for r
    using assms(1-3) by (simp add: registration_def)
  have a: "(\<exists>t \<in> set (team_set d curr_hunt). equal_ignoring_case coll (team_name t) name) \<longrightarrow>
            registration coll ucd rnd own d req = (d, Inr (HttpResponse ''fail-exists''))"
    using new_team_exists [OF _ assms(4)] reg by simp
  have b: "\<exists>d' t. registration coll ucd r own d req
                       = (d', Inr (Render ''registration.html'' [(''registered_team'', TeamValue t)]))
               \<and> Team_objects d' = Team_objects d @ [t]
               \<and> Hunt_objects d' = Hunt_objects d
               \<and> Person_teams d' = Person_teams d @ [(p, next_pk (Team_objects d))]
               \<and> pk t = Some (next_pk (Team_objects d))
               \<and> team_name t = name \<and> team.hunt_id t = hid \<and> team.location t = loc
               \<and> join_code t = make_join_code r
               \<and> person_set d' t = [p]"
    if h: "\<not> (\<exists>t \<in> set (team_set d curr_hunt). equal_ignoring_case coll (team_name t) name)"
       "name \<noteq> []" "POST req ''need_room'' = Some loc" "user req = User (Some p)"
       "pk curr_hunt = Some hid" "memberships_valid d"
    for r
  proof -
    define t where "t = \<lparr>pk = Some (next_pk (Team_objects d)), adding = False, team_name = name,
              team.hunt_id = hid, team.location = loc, join_code = make_join_code r,
              playtester = False\<rparr>"
    define d' where "d' = d\<lparr>Team_objects := Team_objects d @ [t],
                Person_teams := Person_teams d @ [(p, next_pk (Team_objects d))]\<rparr>"
    have run: "registration coll ucd r own d req
                 = (d', Inr (Render ''registration.html'' [(''registered_team'', TeamValue t)]))"
      using new_team_created [OF h(1) assms(4) h(2-6) t_def] reg by (simp add: d'_def)
    have members: "person_set d' t = [p]"
      unfolding d'_def using person_set_new [OF h(6), of t] by (simp add: t_def)
    have fields: "Team_objects d' = Team_objects d @ [t]" "Hunt_objects d' = Hunt_objects d"
        "Person_teams d' = Person_teams d @ [(p, next_pk (Team_objects d))]"
        "pk t = Some (next_pk (Team_objects d))"
        "team_name t = name" "team.hunt_id t = hid" "team.location t = loc"
        "join_code t = make_join_code r"
      by (simp_all add: d'_def t_def)
    show ?thesis
      using run members fields by blast
  qed
  have c: "(\<exists>d' t. registration coll ucd rnd own d req
                       = (d', Inr (Render ''registration.html'' [(''registered_team'', TeamValue t)]))
               \<and> Team_objects d' = Team_objects d @ [t]
               \<and> Hunt_objects d' = Hunt_objects d
               \<and> Person_teams d' = Person_teams d @ [(p, next_pk (Team_objects d))]
               \<and> pk t = Some (next_pk (Team_objects d))
               \<and> team_name t = name \<and> team.hunt_id t = hid \<and> team.location t = loc
               \<and> join_code t
                   = map (\<lambda>i. join_code_alphabet ! (rnd i mod length join_code_alphabet)) [0..<5]
               \<and> length (join_code t) = 5
               \<and> set (join_code t) \<subseteq> set join_code_alphabet
               \<and> set (join_code t) \<inter> set (lit ''01OI'') = {}
               \<and> person_set d' t = [p])
            \<and> (\<forall>c. length c = 5 \<and> set c \<subseteq> set join_code_alphabet \<longrightarrow>
                  (\<exists>rnd' d' t. registration coll ucd rnd' own d req
                       = (d', Inr (Render ''registration.html'' [(''registered_team'', TeamValue t)]))
                     \<and> join_code t = c))"
    if h: "\<not> (\<exists>t \<in> set (team_set d curr_hunt). equal_ignoring_case coll (team_name t) name)"
       "name \<noteq> []" "POST req ''need_room'' = Some loc" "user req = User (Some p)"
       "pk curr_hunt = Some hid" "memberships_valid d"
  proof
    obtain d' t where t: "registration coll ucd rnd own d req
                       = (d', Inr (Render ''registration.html'' [(''registered_team'', TeamValue t)]))"
        "Team_objects d' = Team_objects d @ [t]" "Hunt_objects d' = Hunt_objects d"
        "Person_teams d' = Person_teams d @ [(p, next_pk (Team_objects d))]"
        "pk t = Some (next_pk (Team_objects d))"
        "team_name t = name" "team.hunt_id t = hid" "team.location t = loc"
        "join_code t = make_join_code rnd" "person_set d' t = [p]"
      using b [OF h, of rnd] by blast
    have code: "set (join_code t) \<inter> set (lit ''01OI'') = {}"
      using make_join_code_alphabet [of rnd] alphabet_unambiguous t(9) by auto
    show "\<exists>d' t. registration coll ucd rnd own d req
                       = (d', Inr (Render ''registration.html'' [(''registered_team'', TeamValue t)]))
               \<and> Team_objects d' = Team_objects d @ [t]
               \<and> Hunt_objects d' = Hunt_objects d
               \<and> Person_teams d' = Person_teams d @ [(p, next_pk (Team_objects d))]
               \<and> pk t = Some (next_pk (Team_objects d))
               \<and> team_name t = name \<and> team.hunt_id t = hid \<and> team.location t = loc
               \<and> join_code t
                   = map (\<lambda>i. join_code_alphabet ! (rnd i mod length join_code_alphabet)) [0..<5]
               \<and> length (join_code t) = 5
               \<and> set (join_code t) \<subseteq> set join_code_alphabet
               \<and> set (join_code t) \<inter> set (lit ''01OI'') = {}
               \<and> person_set d' t = [p]"
      using t code make_join_code_length [of rnd] make_join_code_alphabet [of rnd]
        make_join_code_draws [of rnd]
      by (intro exI [of _ d'] exI [of _ t]) (simp del: set_simps)
  next
    show "\<forall>c. length c = 5 \<and> set c \<subseteq> set join_code_alphabet \<longrightarrow>
                  (\<exists>rnd' d' t. registration coll ucd rnd' own d req
                       = (d', Inr (Render ''registration.html'' [(''registered_team'', TeamValue t)]))
                     \<and> join_code t = c)"
    proof (intro allI impI)
      fix c :: unicode
      assume "length c = 5 \<and> set c \<subseteq> set join_code_alphabet"
      then obtain r where r: "make_join_code r = c"
        using make_join_code_onto by blast
      show "\<exists>rnd' d' t. registration coll ucd rnd' own d req
                       = (d', Inr (Render ''registration.html'' [(''registered_team'', TeamValue t)]))
                     \<and> join_code t = c"
        using b [OF h, of r] r by metis
    qed
  qed
  show ?thesis using a c alphabet_content by blast
qed

theorem create_team_witness:
  "(\<exists>t \<in> set (team_set (db_foo [(5, 1)]) first_hunt).
       equal_ignoring_case (\<lambda>c. c) (team_name t) (lit ''FOO''))
   \<and> registration (\<lambda>c. c) latin_ucd (\<lambda>i. 7 * i) None (db_foo [(5, 1)]) (new_team_request (lit ''FOO''))
     = (db_foo [(5, 1)], Inr (HttpResponse ''fail-exists''))
   \<and> \<not> (\<exists>t \<in> set (team_set (db_foo [(5, 1)]) first_hunt).
       equal_ignoring_case (\<lambda>c. c) (team_name t) (lit ''Bar''))
   \<and> memberships_valid (db_foo [(5, 1)])
   \<and> registration (\<lambda>c. c) latin_ucd (\<lambda>i. 7 * i) None (db_foo [(5, 1)]) (new_team_request (lit ''Bar''))
     = ((db_foo [(5, 1), (9, 2)])\<lparr>Team_objects := [team_foo, team_bar]\<rparr>,
        Inr (Render ''registration.html'' [(''registered_team'', TeamValue team_bar)]))
   \<and> join_code team_bar = lit ''AHQX6''
   \<and> person_set ((db_foo [(5, 1), (9, 2)])\<lparr>Team_objects := [team_foo, team_bar]\<rparr>) team_bar = [9]"
proof -
  have cur: "Hunt_get_current (Hunt_objects (db_foo [(5, 1)])) = Inr first_hunt"
    by code_simp
  have form: "method (new_team_request name) = ''POST''"
      "POST (new_team_request name) ''form_type'' = Some (lit ''new_team'')"
      "POST (new_team_request name) ''team_name'' = Some name"
      "POST (new_team_request name) ''need_room'' = Some (lit ''yes'')"
      "user (new_team_request name) = User (Some 9)" for name
    by (simp_all add: new_team_request_def)
  have taken: "\<exists>t \<in> set (team_set (db_foo [(5, 1)]) first_hunt).
                 equal_ignoring_case (\<lambda>c. c) (team_name t) (lit ''FOO'')"
    by code_simp
  have free: "\<not> (\<exists>t \<in> set (team_set (db_foo [(5, 1)]) first_hunt).
                 equal_ignoring_case (\<lambda>c. c) (team_name t) (lit ''Bar''))"
    by code_simp
  have valid: "memberships_valid (db_foo [(5, 1)])"
    by code_simp
  have run: "registration (\<lambda>c. c) latin_ucd (\<lambda>i. 7 * i) None (db_foo [(5, 1)])
               (new_team_request (lit ''Bar''))
     = ((db_foo [(5, 1), (9, 2)])\<lparr>Team_objects := [team_foo, team_bar]\<rparr>,
        Inr (Render ''registration.html'' [(''registered_team'', TeamValue team_bar)]))"
    by code_simp
  have code: "join_code team_bar = lit ''AHQX6''"
    by (simp add: team_bar_def)
  have members:
    "person_set ((db_foo [(5, 1), (9, 2)])\<lparr>Team_objects := [team_foo, team_bar]\<rparr>) team_bar = [9]"
    by code_simp
  have refused: "registration (\<lambda>c. c) latin_ucd (\<lambda>i. 7 * i) None (db_foo [(5, 1)])
                   (new_team_request (lit ''FOO''))
     = (db_foo [(5, 1)], Inr (HttpResponse ''fail-exists''))"
    using create_team [OF cur form(1,2,3), where coll = "\<lambda>c. c" and ucd = latin_ucd
        and rnd = "\<lambda>i. 7 * i" and own = None]
      taken
    by blast
  show ?thesis
    using create_team [OF cur form(1,2,3), where coll = "\<lambda>c. c" and ucd = latin_ucd
        and rnd = "\<lambda>i. 7 * i" and own = None and loc = "lit ''yes''" and p = 9 and hid = 1]
      taken free valid run code members refused
    by blast
qed


section \<open>Joining a team\<close>

lemma join_team_found:
  assumes "objects_get (\<lambda>t. Some (team_name t) = POST req ''team_name'') (team_set d curr_hunt) = Inr t"
  shows "registration_join_team ucd d req curr_hunt =
     (if int (length (person_set d t)) \<ge> team_size curr_hunt
      then (d, Inr (HttpResponse ''fail-full''))
      else (case POST req ''join_code'' of
              None \<Rightarrow> (d, Inl AttributeError)
            | Some code \<Rightarrow>
                if \<not> equal_ignoring_case ucd (join_code t) code
                then (d, Inr (HttpResponse ''fail-password''))
                else (case user_person (user req) of
                        Inl e \<Rightarrow> (d, Inl e)
                      | Inr p \<Rightarrow>
                          (teams_add d p t,
                           Inr (registration_render (teams_add d p t) curr_hunt (Some t))))))"
  using assms
  by (simp add: registration_join_team_def lower_eq_iff Let_def split: option.splits sum.splits)

lemma person_set_teams_add:
  "pk t = Some k \<Longrightarrow> p \<in> set (person_set (teams_add d p t) t)"
  by (force simp: teams_add_def person_set_def)

text \<open>
  C8, with the order of the two checks.  A request that reaches the \<open>join_team\<close> branch,
  names a team \<open>t\<close> that the lookup finds, supplies a code and comes from a user with a
  person \<open>p\<close>.  The answer is \<open>fail-full\<close> exactly when the members of \<open>t\<close> are as many as
  the hunt's \<open>team_size\<close> or more; it is \<open>fail-password\<close> exactly when the team is below
  that size and the code is not equal to the team's join code ignoring case; and when
  the team is below that size and the code is equal ignoring case, \<open>p\<close> is added to the
  team's members.
\<close>

theorem join_team_outcomes:
  assumes "Hunt_get_current (Hunt_objects d) = Inr curr_hunt"
    and "method req = ''POST''"
    and "POST req ''form_type'' = Some (lit ''join_team'')"
    and "objects_get (\<lambda>t. Some (team_name t) = POST req ''team_name'') (team_set d curr_hunt) = Inr t"
    and "pk t = Some k"
    and "POST req ''join_code'' = Some code"
    and "user req = User (Some p)"
  shows "(registration coll ucd rnd own d req = (d, Inr (HttpResponse ''fail-full''))
            \<longleftrightarrow> team_size curr_hunt \<le> int (length (person_set d t)))
       \<and> (registration coll ucd rnd own d req = (d, Inr (HttpResponse ''fail-password''))
            \<longleftrightarrow> int (length (person_set d t)) < team_size curr_hunt
                \<and> \<not> equal_ignoring_case ucd (join_code t) code)
       \<and> (int (length (person_set d t)) < team_size curr_hunt
            \<and> equal_ignoring_case ucd (join_code t) code \<longrightarrow>
            registration coll ucd rnd own d req
              = (teams_add d p t, Inr (Render ''registration.html'' [(''registered_team'', TeamValue t)]))
            \<and> p \<in> set (person_set (teams_add d p t) t))"
proof -
  have reg: "registration coll ucd rnd own d req = registration_join_team ucd d req curr_hunt"
    using assms(1-3) by (simp add: registration_def lit_def)
  show ?thesis
    unfolding reg join_team_found [OF assms(4)]
    using assms(6,7) person_set_teams_add [OF assms(5), of p d]
    by (auto simp: user_person_def registration_render_def)
qed

theorem join_team_outcomes_witness:
  "objects_get (\<lambda>t. Some (team_name t) = POST (join_team_request (lit ''Foo'') (lit ''abcde'')) ''team_name'')
      (team_set (db_foo [(5, 1)]) first_hunt)
     = Inr team_foo
   \<and> int (length (person_set (db_foo [(5, 1)]) team_foo)) < team_size first_hunt
   \<and> equal_ignoring_case latin_ucd (join_code team_foo) (lit ''abcde'')
   \<and> registration (\<lambda>c. c) latin_ucd (\<lambda>i. 0) None (db_foo [(5, 1)])
        (join_team_request (lit ''Foo'') (lit ''abcde''))
     = (db_foo [(5, 1), (9, 1)],
        Inr (Render ''registration.html'' [(''registered_team'', TeamValue team_foo)]))
   \<and> \<not> equal_ignoring_case latin_ucd (join_code team_foo) (lit ''WRONG'')
   \<and> registration (\<lambda>c. c) latin_ucd (\<lambda>i. 0) None (db_foo [(5, 1)])
        (join_team_request (lit ''Foo'') (lit ''WRONG''))
     = (db_foo [(5, 1)], Inr (HttpResponse ''fail-password''))"
proof -
  have cur: "Hunt_get_current (Hunt_objects (db_foo [(5, 1)])) = Inr first_hunt"
    by code_simp
  have form: "method (join_team_request name code) = ''POST''"
      "POST (join_team_request name code) ''form_type'' = Some (lit ''join_team'')"
      "POST (join_team_request name code) ''join_code'' = Some code"
      "user (join_team_request name code) = User (Some 9)" for name code
    by (simp_all add: join_team_request_def)
  have found: "objects_get (\<lambda>t. Some (team_name t) = POST (join_team_request (lit ''Foo'') code) ''team_name'')
      (team_set (db_foo [(5, 1)]) first_hunt)
     = Inr team_foo" for code
    by (simp add: join_team_request_def objects_get_def team_set_def db_foo_def team_foo_def
          first_hunt_def)
  have key: "pk team_foo = Some 1"
    by (simp add: team_foo_def)
  have room: "int (length (person_set (db_foo [(5, 1)]) team_foo)) < team_size first_hunt"
    by code_simp
  have same: "equal_ignoring_case latin_ucd (join_code team_foo) (lit ''abcde'')"
    by code_simp
  have other: "\<not> equal_ignoring_case latin_ucd (join_code team_foo) (lit ''WRONG'')"
    by code_simp
  have added: "teams_add (db_foo [(5, 1)]) 9 team_foo = db_foo [(5, 1), (9, 1)]"
    by code_simp
  have joined: "registration (\<lambda>c. c) latin_ucd (\<lambda>i. 0) None (db_foo [(5, 1)])
                  (join_team_request (lit ''Foo'') (lit ''abcde''))
     = (db_foo [(5, 1), (9, 1)],
        Inr (Render ''registration.html'' [(''registered_team'', TeamValue team_foo)]))"
    using join_team_outcomes [OF cur form(1,2) found key form(3,4),
        where coll = "\<lambda>c. c" and ucd = latin_ucd and rnd = "\<lambda>i. 0" and own = None]
      room same added
    by simp
  have refused: "registration (\<lambda>c. c) latin_ucd (\<lambda>i. 0) None (db_foo [(5, 1)])
                   (join_team_request (lit ''Foo'') (lit ''WRONG''))
     = (db_foo [(5, 1)], Inr (HttpResponse ''fail-password''))"
    using join_team_outcomes [OF cur form(1,2) found key form(3,4),
        where coll = "\<lambda>c. c" and ucd = latin_ucd and rnd = "\<lambda>i. 0" and own = None]
      room other
    by simp
  show ?thesis
    using found room same other joined refused by blast
qed

text \<open>
  A team of two in a hunt with \<open>team_size = 2\<close> and a request with a wrong code: the code
  does not match, and the answer is \<open>fail-full\<close>, not \<open>fail-password\<close>.
\<close>

theorem join_team_bad_code_counterexample:
  "objects_get (\<lambda>t. Some (team_name t) = POST (join_team_request (lit ''Foo'') (lit ''WRONG'')) ''team_name'')
      (team_set (db_foo [(5, 1), (6, 1)]) first_hunt)
     = Inr team_foo
   \<and> lower latin_ucd (join_code team_foo) \<noteq> lower latin_ucd (lit ''WRONG'')
   \<and> registration (\<lambda>c. c) latin_ucd (\<lambda>i. 0) None (db_foo [(5, 1), (6, 1)])
        (join_team_request (lit ''Foo'') (lit ''WRONG''))
     = (db_foo [(5, 1), (6, 1)], Inr (HttpResponse ''fail-full''))
   \<and> snd (registration (\<lambda>c. c) latin_ucd (\<lambda>i. 0) None (db_foo [(5, 1), (6, 1)])
        (join_team_request (lit ''Foo'') (lit ''WRONG'')))
     \<noteq> Inr (HttpResponse ''fail-password'')"
  by code_simp

text \<open>
  The code is compared as \<open>.lower()\<close> compares: with the excerpt of the case table, the
  code A, B, C, D, U+212A (the Kelvin sign) is accepted for the join code \<open>ABCDK\<close>.
\<close>

lemma join_team_beyond_ascii:
  "registration (\<lambda>c. c) latin_ucd (\<lambda>i. 0) None
     ((db_foo [(5, 1)])\<lparr>Team_objects := [team_foo\<lparr>join_code := lit ''ABCDK''\<rparr>]\<rparr>)
     (join_team_request (lit ''Foo'') [97, 98, 99, 100, 8490])
   = ((db_foo [(5, 1), (9, 1)])\<lparr>Team_objects := [team_foo\<lparr>join_code := lit ''ABCDK''\<rparr>]\<rparr>,
      Inr (Render ''registration.html''
             [(''registered_team'', TeamValue (team_foo\<lparr>join_code := lit ''ABCDK''\<rparr>))]))"
  by code_simp

text \<open>
  C9.  The size check comes first: when the team the request names is found and has
  \<open>team_size\<close> members or more, the answer is \<open>fail-full\<close> and the database is unchanged,
  whatever join code the request carries (none, a wrong one, the right one) and whoever
  the user is; it is never \<open>fail-password\<close>.
\<close>

theorem join_team_full_first:
  assumes "Hunt_get_current (Hunt_objects d) = Inr curr_hunt"
    and "method req = ''POST''"
    and "POST req ''form_type'' = Some (lit ''join_team'')"
    and "objects_get (\<lambda>t. Some (team_name t) = POST req ''team_name'') (team_set d curr_hunt) = Inr t"
    and "team_size curr_hunt \<le> int (length (person_set d t))"
  shows "registration coll ucd rnd own d req = (d, Inr (HttpResponse ''fail-full''))
       \<and> snd (registration coll ucd rnd own d req) \<noteq> Inr (HttpResponse ''fail-password'')"
proof -
  have reg: "registration coll ucd rnd own d req = registration_join_team ucd d req curr_hunt"
    using assms(1-3) by (simp add: registration_def lit_def)
  show ?thesis
    unfolding reg join_team_found [OF assms(4)] using assms(5) by simp
qed

theorem join_team_full_first_witness:
  "objects_get (\<lambda>t. Some (team_name t) = POST (join_team_request (lit ''Baz'') (lit ''QRSTU'')) ''team_name'')
      (team_set (db_baz [(3, 1), (4, 1)]) first_hunt)
     = Inr team_baz
   \<and> team_size first_hunt \<le> int (length (person_set (db_baz [(3, 1), (4, 1)]) team_baz))
   \<and> lower latin_ucd (join_code team_baz) = lower latin_ucd (lit ''QRSTU'')
   \<and> registration (\<lambda>c. c) latin_ucd (\<lambda>i. 0) None (db_baz [(3, 1), (4, 1)])
        (join_team_request (lit ''Baz'') (lit ''QRSTU''))
     = (db_baz [(3, 1), (4, 1)], Inr (HttpResponse ''fail-full''))"
proof -
  have cur: "Hunt_get_current (Hunt_objects (db_baz [(3, 1), (4, 1)])) = Inr first_hunt"
    by code_simp
  have form: "method (join_team_request (lit ''Baz'') (lit ''QRSTU'')) = ''POST''"
      "POST (join_team_request (lit ''Baz'') (lit ''QRSTU'')) ''form_type'' = Some (lit ''join_team'')"
    by (simp_all add: join_team_request_def)
  have found:
    "objects_get (\<lambda>t. Some (team_name t) = POST (join_team_request (lit ''Baz'') (lit ''QRSTU'')) ''team_name'')
      (team_set (db_baz [(3, 1), (4, 1)]) first_hunt)
     = Inr team_baz"
    by code_simp
  have full: "team_size first_hunt \<le> int (length (person_set (db_baz [(3, 1), (4, 1)]) team_baz))"
    by code_simp
  have code: "lower latin_ucd (join_code team_baz) = lower latin_ucd (lit ''QRSTU'')"
    by code_simp
  show ?thesis
    using join_team_full_first [OF cur form found full,
        where coll = "\<lambda>c. c" and ucd = latin_ucd and rnd = "\<lambda>i. 0" and own = None]
      found full code
    by blast
qed


text \<open>
  What the view does to the table of teams: nothing, or it appends one team of the
  current hunt whose name no team of that hunt has, ignoring case.
\<close>

lemma Team_objects_teams_add: "Team_objects (teams_add d p t) = Team_objects d"
  by (simp add: teams_add_def split: option.splits)

lemma Team_objects_teams_remove: "Team_objects (teams_remove d p t) = Team_objects d"
  by (simp add: teams_remove_def split: option.splits)

lemma new_team_teams:
  "Team_objects (fst (registration_new_team coll rnd own d req curr_hunt)) = Team_objects d \<or>
   (\<exists>hid name t. pk curr_hunt = Some hid
      \<and> \<not> (\<exists>t' \<in> set (team_set d curr_hunt). lower coll (team_name t') = lower coll name)
      \<and> team.hunt_id t = hid \<and> team_name t = name
      \<and> Team_objects (fst (registration_new_team coll rnd own d req curr_hunt))
          = Team_objects d @ [t])"
proof (cases "\<exists>t \<in> set (team_set d curr_hunt). iexact coll (team_name t) (POST req ''team_name'')")
  case True
  then show ?thesis by (simp add: registration_new_team_def)
next
  case False
  show ?thesis
  proof (cases "POST req ''team_name''")
    case None
    then show ?thesis
      using False by (simp add: registration_new_team_def Team_create_def)
  next
    case (Some name)
    show ?thesis
    proof (cases "name = [] \<or> POST req ''need_room'' = None \<or> pk curr_hunt = None")
      case True
      then show ?thesis
        using False Some
        by (auto simp: registration_new_team_def Team_create_def split: option.splits)
    next
      case ok: False
      then obtain loc hid where l: "POST req ''need_room'' = Some loc" "pk curr_hunt = Some hid"
        by auto
      let ?t = "\<lparr>pk = Some (next_pk (Team_objects d)), adding = False, team_name = name,
                 team.hunt_id = hid, team.location = loc, join_code = make_join_code rnd,
                 playtester = False\<rparr>"
      have "Team_objects (fst (registration_new_team coll rnd own d req curr_hunt))
              = Team_objects d @ [?t]"
        using False Some ok l
        by (simp add: registration_new_team_def Team_create_def objects_create_def Let_def
              Team_objects_teams_add split: sum.splits)
      moreover have "\<not> (\<exists>t' \<in> set (team_set d curr_hunt).
                          lower coll (team_name t') = lower coll name)"
        using False Some by (simp add: iexact_def)
      ultimately show ?thesis
        using l(2) by (intro disjI2 exI [of _ hid] exI [of _ name] exI [of _ ?t]) simp
    qed
  qed
qed

lemma registration_teams:
  "Team_objects (fst (registration coll ucd rnd own d req)) = Team_objects d \<or>
   (\<exists>curr_hunt hid name t. pk curr_hunt = Some hid
      \<and> \<not> (\<exists>t' \<in> set (team_set d curr_hunt). lower coll (team_name t') = lower coll name)
      \<and> team.hunt_id t = hid \<and> team_name t = name
      \<and> Team_objects (fst (registration coll ucd rnd own d req)) = Team_objects d @ [t])"
proof (cases "Hunt_get_current (Hunt_objects d)")
  case (Inl e)
  then show ?thesis by (simp add: registration_def)
next
  case (Inr curr_hunt)
  show ?thesis
  proof (cases "method req = ''POST'' \<and> POST req ''form_type'' = Some (lit ''new_team'')")
    case True
    then have "registration coll ucd rnd own d req
                 = registration_new_team coll rnd own d req curr_hunt"
      using Inr by (simp add: registration_def)
    then show ?thesis
      using new_team_teams [of coll rnd own d req curr_hunt] by auto
  next
    case False
    have "Team_objects (fst (registration_join_team ucd d req curr_hunt)) = Team_objects d"
      by (simp add: registration_join_team_def Let_def Team_objects_teams_add
            split: sum.splits option.splits)
    moreover have "Team_objects (fst (registration_leave_team own d req curr_hunt)) = Team_objects d"
      by (simp add: registration_leave_team_def Let_def Team_objects_teams_remove
            split: sum.splits)
    ultimately have "Team_objects (fst (registration coll ucd rnd own d req)) = Team_objects d"
      using False Inr by (auto simp: registration_def)
    then show ?thesis by simp
  qed
qed

text \<open>
  So the view keeps the names of the teams of every hunt distinct ignoring case: a
  database in which they are (one without teams, to begin with) stays so under every
  sequence of requests.
\<close>

lemma names_distinct_registration:
  assumes "names_distinct coll d"
  shows "names_distinct coll (fst (registration coll ucd rnd own d req))"
proof -
  from registration_teams [of coll ucd rnd own d req] show ?thesis
  proof (elim disjE exE conjE)
    assume "Team_objects (fst (registration coll ucd rnd own d req)) = Team_objects d"
    then show ?thesis using assms by (simp add: names_distinct_def)
  next
    fix curr_hunt hid name t
    assume h: "pk curr_hunt = Some hid"
      "\<not> (\<exists>t' \<in> set (team_set d curr_hunt). lower coll (team_name t') = lower coll name)"
      "team.hunt_id t = hid" "team_name t = name"
      "Team_objects (fst (registration coll ucd rnd own d req)) = Team_objects d @ [t]"
    have "(hid, lower coll name)
            \<notin> set (map (\<lambda>t. (team.hunt_id t, lower coll (team_name t))) (Team_objects d))"
      using h(1,2) by (auto simp: team_set_def)
    then show ?thesis
      using assms h(3,4,5) by (simp add: names_distinct_def)
  qed
qed

lemma names_distinct_registrations:
  "names_distinct coll d \<Longrightarrow> names_distinct coll (registrations coll ucd d reqs)"
  by (induction reqs arbitrary: d) (auto simp: names_distinct_registration)

lemma names_distinct_no_teams: "Team_objects d = [] \<Longrightarrow> names_distinct coll d"
  by (simp add: names_distinct_def)

lemma names_distinct_team_set:
  assumes "names_distinct coll d" "t \<in> set (team_set d h)" "t' \<in> set (team_set d h)"
    "lower coll (team_name t) = lower coll (team_name t')"
  shows "t = t'"
proof -
  have "inj_on (\<lambda>t. (team.hunt_id t, lower coll (team_name t))) (set (Team_objects d))"
    using assms(1) by (simp add: names_distinct_def distinct_map)
  moreover have "t \<in> set (Team_objects d)" "t' \<in> set (Team_objects d)"
    using assms(2,3) by (auto simp: team_set_def)
  moreover have "Some (team.hunt_id t) = Some (team.hunt_id t')"
    using assms(2,3) by (simp add: team_set_def)
  then have "team.hunt_id t = team.hunt_id t'"
    by simp
  ultimately show ?thesis
    using assms(4) by (auto dest: inj_onD)
qed

text \<open>
  C10.  Take a database in which the names of the teams of every hunt are distinct
  ignoring case, and let any sequence of requests to the view run: creation keeps the
  names so.  A request to join that then names a stored team \<open>t\<close> of the current hunt in
  another letter case (equal ignoring case, not equal) finds no team: the lookup is by
  exact name, the view ends in the exception \<open>DoesNotExist\<close> instead of one of the
  answers \<open>fail-full\<close> and \<open>fail-password\<close>, and the database, the memberships included,
  is unchanged.
\<close>

theorem join_team_other_case:
  assumes "names_distinct coll d0"
    and "d = registrations coll ucd d0 reqs"
    and "Hunt_get_current (Hunt_objects d) = Inr curr_hunt"
    and "method req = ''POST''"
    and "POST req ''form_type'' = Some (lit ''join_team'')"
    and "POST req ''team_name'' = Some name"
    and "t \<in> set (team_set d curr_hunt)"
    and "equal_ignoring_case coll (team_name t) name"
    and "team_name t \<noteq> name"
  shows "registration coll ucd rnd own d req = (d, Inl DoesNotExist)
       \<and> names_distinct coll d"
proof -
  have inv: "names_distinct coll d"
    using assms(1,2) by (simp add: names_distinct_registrations)
  have reg: "registration coll ucd rnd own d req = registration_join_team ucd d req curr_hunt"
    using assms(3-5) by (simp add: registration_def lit_def)
  have "team_name t' \<noteq> name" if "t' \<in> set (team_set d curr_hunt)" for t'
  proof
    assume eq: "team_name t' = name"
    have "lower coll (team_name t) = lower coll name"
      using assms(8) by (simp add: lower_eq_iff)
    then have "lower coll (team_name t) = lower coll (team_name t')"
      using eq by simp
    with inv assms(7) that have "t = t'"
      by (rule names_distinct_team_set)
    then show False using eq assms(9) by simp
  qed
  then have "objects_get (\<lambda>t. Some (team_name t) = POST req ''team_name'') (team_set d curr_hunt)
               = Inl DoesNotExist"
    using assms(6) by (intro objects_get_none) auto
  then show ?thesis
    unfolding reg using inv by (simp add: registration_join_team_def)
qed

text \<open>
  From a database without teams: the team "Foo" is created through the view, and a
  request to join "foo" ends in \<open>DoesNotExist\<close>.
\<close>

theorem join_team_other_case_witness:
  "names_distinct (\<lambda>c. c) ((db_foo [])\<lparr>Team_objects := []\<rparr>)
   \<and> registrations (\<lambda>c. c) latin_ucd ((db_foo [])\<lparr>Team_objects := []\<rparr>)
        [(\<lambda>i. i, None, new_team_request (lit ''Foo''))]
     = (db_foo [(9, 1)])\<lparr>Team_objects := [team_foo\<lparr>team.location := lit ''yes''\<rparr>]\<rparr>
   \<and> team_foo\<lparr>team.location := lit ''yes''\<rparr>
       \<in> set (team_set ((db_foo [(9, 1)])\<lparr>Team_objects := [team_foo\<lparr>team.location := lit ''yes''\<rparr>]\<rparr>)
               first_hunt)
   \<and> equal_ignoring_case (\<lambda>c. c) (team_name (team_foo\<lparr>team.location := lit ''yes''\<rparr>)) (lit ''foo'')
   \<and> team_name (team_foo\<lparr>team.location := lit ''yes''\<rparr>) \<noteq> lit ''foo''
   \<and> registration (\<lambda>c. c) latin_ucd (\<lambda>i. 0) None
        ((db_foo [(9, 1)])\<lparr>Team_objects := [team_foo\<lparr>team.location := lit ''yes''\<rparr>]\<rparr>)
        (join_team_request (lit ''foo'') (lit ''ABCDE''))
     = ((db_foo [(9, 1)])\<lparr>Team_objects := [team_foo\<lparr>team.location := lit ''yes''\<rparr>]\<rparr>,
        Inl DoesNotExist)"
proof -
  let ?d = "(db_foo [(9, 1)])\<lparr>Team_objects := [team_foo\<lparr>team.location := lit ''yes''\<rparr>]\<rparr>"
  let ?t = "team_foo\<lparr>team.location := lit ''yes''\<rparr>"
  have start: "names_distinct (\<lambda>c. c) ((db_foo [])\<lparr>Team_objects := []\<rparr>)"
    by code_simp
  have reached: "?d = registrations (\<lambda>c. c) latin_ucd ((db_foo [])\<lparr>Team_objects := []\<rparr>)
        [(\<lambda>i. i, None, new_team_request (lit ''Foo''))]"
    by code_simp
  have cur: "Hunt_get_current (Hunt_objects ?d) = Inr first_hunt"
    by code_simp
  have form: "method (join_team_request (lit ''foo'') (lit ''ABCDE'')) = ''POST''"
      "POST (join_team_request (lit ''foo'') (lit ''ABCDE'')) ''form_type'' = Some (lit ''join_team'')"
      "POST (join_team_request (lit ''foo'') (lit ''ABCDE'')) ''team_name'' = Some (lit ''foo'')"
    by (simp_all add: join_team_request_def)
  have stored: "?t \<in> set (team_set ?d first_hunt)"
    by code_simp
  have same: "equal_ignoring_case (\<lambda>c. c) (team_name ?t) (lit ''foo'')"
    by code_simp
  have differs: "team_name ?t \<noteq> lit ''foo''"
    by code_simp
  show ?thesis
    using join_team_other_case [OF start reached cur form stored same differs,
        where rnd = "\<lambda>i. 0" and own = None]
      start reached stored same differs
    by simp
qed


end
